theory Spec2Isabelle
  imports Complex_Main "HOL-Library.Multiset"
begin

section \<open>JavaScript numbers\<close>

text \<open>
  A JavaScript number is a finite value, one of the two infinities, or NaN. Finite values
  are modelled as reals: rounding, overflow to an infinity and the sign of zero are not
  modelled. The operations keep the special cases of the language: \<open>0 / 0\<close>,
  \<open>Infinity - Infinity\<close> and \<open>0 * Infinity\<close> are NaN, NaN is absorbing, and every
  comparison with NaN is false.
\<close>

datatype jsnum = Num real | PInf | NInf | NaN

instantiation jsnum :: "{zero, one, plus, uminus, minus, times, inverse, ord}"
begin

definition zero_jsnum :: jsnum where
  "zero_jsnum = Num 0"

definition one_jsnum :: jsnum where
  "one_jsnum = Num 1"

fun plus_jsnum :: "jsnum \<Rightarrow> jsnum \<Rightarrow> jsnum" where
  "plus_jsnum NaN _ = NaN"
| "plus_jsnum _ NaN = NaN"
| "plus_jsnum (Num a) (Num b) = Num (a + b)"
| "plus_jsnum PInf NInf = NaN"
| "plus_jsnum NInf PInf = NaN"
| "plus_jsnum PInf _ = PInf"
| "plus_jsnum _ PInf = PInf"
| "plus_jsnum NInf _ = NInf"
| "plus_jsnum _ NInf = NInf"

fun uminus_jsnum :: "jsnum \<Rightarrow> jsnum" where
  "uminus_jsnum (Num a) = Num (- a)"
| "uminus_jsnum PInf = NInf"
| "uminus_jsnum NInf = PInf"
| "uminus_jsnum NaN = NaN"

definition minus_jsnum :: "jsnum \<Rightarrow> jsnum \<Rightarrow> jsnum" where
  "minus_jsnum x y = x + (- y)"

fun times_jsnum :: "jsnum \<Rightarrow> jsnum \<Rightarrow> jsnum" where
  "times_jsnum NaN _ = NaN"
| "times_jsnum _ NaN = NaN"
| "times_jsnum (Num a) (Num b) = Num (a * b)"
| "times_jsnum (Num a) PInf = (if a = 0 then NaN else if 0 < a then PInf else NInf)"
| "times_jsnum (Num a) NInf = (if a = 0 then NaN else if 0 < a then NInf else PInf)"
| "times_jsnum PInf (Num b) = (if b = 0 then NaN else if 0 < b then PInf else NInf)"
| "times_jsnum NInf (Num b) = (if b = 0 then NaN else if 0 < b then NInf else PInf)"
| "times_jsnum PInf PInf = PInf"
| "times_jsnum PInf NInf = NInf"
| "times_jsnum NInf PInf = NInf"
| "times_jsnum NInf NInf = PInf"

fun divide_jsnum :: "jsnum \<Rightarrow> jsnum \<Rightarrow> jsnum" where
  "divide_jsnum NaN _ = NaN"
| "divide_jsnum _ NaN = NaN"
| "divide_jsnum (Num a) (Num b) =
     (if b = 0 then (if a = 0 then NaN else if 0 < a then PInf else NInf)
      else Num (a / b))"
| "divide_jsnum (Num a) PInf = Num 0"
| "divide_jsnum (Num a) NInf = Num 0"
| "divide_jsnum PInf (Num b) = (if 0 \<le> b then PInf else NInf)"
| "divide_jsnum NInf (Num b) = (if 0 \<le> b then NInf else PInf)"
| "divide_jsnum PInf PInf = NaN"
| "divide_jsnum PInf NInf = NaN"
| "divide_jsnum NInf PInf = NaN"
| "divide_jsnum NInf NInf = NaN"

definition inverse_jsnum :: "jsnum \<Rightarrow> jsnum" where
  "inverse_jsnum x = divide (Num 1) x"

fun less_jsnum :: "jsnum \<Rightarrow> jsnum \<Rightarrow> bool" where
  "less_jsnum NaN _ = False"
| "less_jsnum _ NaN = False"
| "less_jsnum (Num a) (Num b) = (a < b)"
| "less_jsnum NInf NInf = False"
| "less_jsnum NInf _ = True"
| "less_jsnum _ NInf = False"
| "less_jsnum PInf _ = False"
| "less_jsnum _ PInf = True"

definition less_eq_jsnum :: "jsnum \<Rightarrow> jsnum \<Rightarrow> bool" where
  "less_eq_jsnum x y = (x < y \<or> (x = y \<and> x \<noteq> NaN))"

instance ..

end

text \<open>
  Reading an array past its end gives \<open>undefined\<close>. Every such read below feeds an
  arithmetic operator or a comparison, which convert \<open>undefined\<close> to NaN.
\<close>

definition num_at :: "jsnum list \<Rightarrow> nat \<Rightarrow> jsnum" where
  "num_at xs i = (if i < length xs then xs ! i else NaN)"

datatype error = DimensionMismatch | TypeError

section \<open>NetworkLayer\<close>

text \<open>
  The constructor fills \<open>weights\<close> with \<open>numNeurons\<close> rows of \<open>numInputs\<close> random
  entries and \<open>biases\<close> with \<open>numNeurons\<close> random entries. The calls of
  \<open>Math.random\<close> are the function \<open>rnd\<close>, indexed in the order the constructor makes them.
\<close>

record NetworkLayer =
  numNeurons :: nat
  numInputs :: nat
  weights :: "jsnum list list"
  biases :: "jsnum list"
  activations :: "jsnum list"
  gradients :: "jsnum list"

definition new_NetworkLayer :: "nat \<Rightarrow> nat \<Rightarrow> (nat \<Rightarrow> jsnum) \<Rightarrow> NetworkLayer" where
  "new_NetworkLayer n m rnd =
     \<lparr> numNeurons = n, numInputs = m,
       weights = map (\<lambda>i. map (\<lambda>j. rnd (i * (m + 1) + j) * Num 2 - 1) [0..<m]) [0..<n],
       biases = map (\<lambda>i. rnd (i * (m + 1) + m) * Num 2 - 1) [0..<n],
       activations = [], gradients = [] \<rparr>"

text \<open>
  The shape the constructor establishes. Layers are private to the network and rows are
  never added or removed, so \<open>weights l ! i\<close> is read only for \<open>i < numNeurons l\<close>.
\<close>

definition layer_ok :: "NetworkLayer \<Rightarrow> bool" where
  "layer_ok l \<longleftrightarrow>
     length (weights l) = numNeurons l \<and> length (biases l) = numNeurons l \<and>
     list_all (\<lambda>row. length row = numInputs l) (weights l)"

text \<open>The inner loop of \<open>activate\<close>: \<open>activation += weights[i][j] * inputs[j]\<close> from 0.\<close>

definition weighted_sum :: "jsnum list \<Rightarrow> jsnum list \<Rightarrow> nat \<Rightarrow> jsnum" where
  "weighted_sum row inputs m =
     foldl (\<lambda>activation j. activation + num_at row j * num_at inputs j) 0 [0..<m]"

definition activate ::
  "NetworkLayer \<Rightarrow> jsnum list \<Rightarrow> (jsnum \<Rightarrow> jsnum) \<Rightarrow> error + (jsnum list \<times> NetworkLayer)" where
  "activate l inputs activationFunction =
     (if length inputs \<noteq> numInputs l then Inl DimensionMismatch
      else
        let outputs =
              map (\<lambda>i. activationFunction
                         (weighted_sum (weights l ! i) inputs (numInputs l) + num_at (biases l) i))
                  [0..<numNeurons l]
        in Inr (outputs, l\<lparr>activations := outputs\<rparr>))"

section \<open>MultiLayerPerceptron\<close>

text \<open>The default activation and error functions of the constructor.\<close>

definition reLU :: "jsnum \<Rightarrow> jsnum" where
  "reLU x = (if 0 < x then x else 0)"

definition mse :: "jsnum list \<Rightarrow> jsnum list \<Rightarrow> jsnum" where
  "mse predictions targets =
     foldl (\<lambda>err i. err + (num_at targets i - num_at predictions i) * (num_at targets i - num_at predictions i))
       (0::jsnum) [0..<length predictions]
     / Num (real (length predictions))"

text \<open>
  \<open>#predict\<close>: the layers are activated in order, each on the outputs of the one before.
  A failing layer throws, and the exception leaves \<open>#predict\<close>.
\<close>

fun predict_layers ::
  "(jsnum \<Rightarrow> jsnum) \<Rightarrow> NetworkLayer list \<Rightarrow> jsnum list \<Rightarrow> error + (jsnum list \<times> NetworkLayer list)" where
  "predict_layers f [] outputs = Inr (outputs, [])"
| "predict_layers f (l # ls) outputs =
     (case activate l outputs f of
        Inl e \<Rightarrow> Inl e
      | Inr (out, l') \<Rightarrow>
          (case predict_layers f ls out of
             Inl e \<Rightarrow> Inl e
           | Inr (res, ls') \<Rightarrow> Inr (res, l' # ls')))"

text \<open>
  \<open>#backpropagate\<close>, one iteration of its loop at a layer \<open>i > 0\<close>. The gradients of the
  output layer and of a hidden layer are the two branches of the source; the update adds
  to \<open>weights[j][k]\<close> for \<open>k\<close> below the previous layer's neuron count (a write past the
  end of a row extends it, with \<open>undefined + x\<close>, which is NaN) and to \<open>biases[j]\<close>, and
  stores the gradients.
\<close>

definition output_gradients :: "NetworkLayer \<Rightarrow> jsnum list \<Rightarrow> jsnum list \<Rightarrow> jsnum list" where
  "output_gradients currentLayer targets predictions =
     map (\<lambda>j. let activation = num_at (activations currentLayer) j;
                  derivative = activation * (1 - activation)
              in (num_at targets j - num_at predictions j) * derivative)
         [0..<numNeurons currentLayer]"

definition hidden_gradients :: "NetworkLayer \<Rightarrow> NetworkLayer \<Rightarrow> jsnum list" where
  "hidden_gradients currentLayer nextLayer =
     map (\<lambda>j. let activation = num_at (activations currentLayer) j;
                  derivative = activation * (1 - activation);
                  gradient = foldl (\<lambda>gradient k.
                                gradient + num_at (weights nextLayer ! k) j * num_at (gradients nextLayer) k)
                              0 [0..<numNeurons nextLayer]
              in gradient * derivative)
         [0..<numNeurons currentLayer]"

definition update_row :: "jsnum \<Rightarrow> jsnum \<Rightarrow> NetworkLayer \<Rightarrow> jsnum list \<Rightarrow> jsnum list" where
  "update_row rate g prevLayer row =
     map (\<lambda>k. num_at row k + rate * g * num_at (activations prevLayer) k) [0..<numNeurons prevLayer]
     @ drop (numNeurons prevLayer) row"

definition update_layer :: "jsnum \<Rightarrow> jsnum list \<Rightarrow> NetworkLayer \<Rightarrow> NetworkLayer \<Rightarrow> NetworkLayer" where
  "update_layer rate grads prevLayer currentLayer =
     currentLayer
       \<lparr> weights :=
           map (\<lambda>j. update_row rate (num_at grads j) prevLayer (weights currentLayer ! j))
               [0..<numNeurons currentLayer]
           @ drop (numNeurons currentLayer) (weights currentLayer),
         biases :=
           map (\<lambda>j. num_at (biases currentLayer) j + rate * num_at grads j) [0..<numNeurons currentLayer]
           @ drop (numNeurons currentLayer) (biases currentLayer),
         gradients := grads \<rparr>"

text \<open>
  The loop runs \<open>i\<close> from the last index down to 0. At \<open>i = 0\<close> nothing is stored: the
  gradients computed there (when the only layer is also the last) are dropped, and the
  update is skipped.
\<close>

fun backprop_loop :: "jsnum \<Rightarrow> jsnum list \<Rightarrow> jsnum list \<Rightarrow> nat \<Rightarrow> NetworkLayer list \<Rightarrow> NetworkLayer list" where
  "backprop_loop rate targets predictions 0 ls = ls"
| "backprop_loop rate targets predictions (Suc i) ls =
     (let currentLayer = ls ! Suc i;
          grads = (if Suc i = length ls - 1
                   then output_gradients currentLayer targets predictions
                   else hidden_gradients currentLayer (ls ! (Suc i + 1)));
          prevLayer = ls ! i
      in backprop_loop rate targets predictions i
           (ls[Suc i := update_layer rate grads prevLayer currentLayer]))"

definition backpropagate_layers :: "jsnum \<Rightarrow> jsnum list \<Rightarrow> jsnum list \<Rightarrow> NetworkLayer list \<Rightarrow> NetworkLayer list" where
  "backpropagate_layers rate targets predictions ls =
     (if ls = [] then ls else backprop_loop rate targets predictions (length ls - 1) ls)"

record MultiLayerPerceptron =
  activationFunction :: "jsnum \<Rightarrow> jsnum"
  errorFunction :: "jsnum list \<Rightarrow> jsnum list \<Rightarrow> jsnum"
  learningRate :: jsnum
  layers :: "NetworkLayer list"

text \<open>
  The constructor: a missing or falsy option takes its default (\<open>||\<close>), so a learning
  rate of 0 or NaN becomes 0.01. \<open>rnd i\<close> are the random draws of layer \<open>i\<close>.
\<close>

definition truthy :: "jsnum \<Rightarrow> bool" where
  "truthy x \<longleftrightarrow> x \<noteq> Num 0 \<and> x \<noteq> NaN"

definition new_MultiLayerPerceptron ::
  "(nat \<times> nat) list \<Rightarrow> (jsnum \<Rightarrow> jsnum) option \<Rightarrow> (jsnum list \<Rightarrow> jsnum list \<Rightarrow> jsnum) option \<Rightarrow>
   jsnum option \<Rightarrow> (nat \<Rightarrow> nat \<Rightarrow> jsnum) \<Rightarrow> MultiLayerPerceptron" where
  "new_MultiLayerPerceptron layerSizes optActivation optError optRate rnd =
     \<lparr> activationFunction = (case optActivation of Some f \<Rightarrow> f | None \<Rightarrow> reLU),
       errorFunction = (case optError of Some f \<Rightarrow> f | None \<Rightarrow> mse),
       learningRate = (case optRate of Some r \<Rightarrow> if truthy r then r else Num 0.01 | None \<Rightarrow> Num 0.01),
       layers = map (\<lambda>i. new_NetworkLayer (fst (layerSizes ! i)) (snd (layerSizes ! i)) (rnd i))
                    [0..<length layerSizes] \<rparr>"

definition predict :: "MultiLayerPerceptron \<Rightarrow> jsnum list \<Rightarrow> error + (jsnum list \<times> MultiLayerPerceptron)" where
  "predict net xs =
     (case predict_layers (activationFunction net) (layers net) xs of
        Inl e \<Rightarrow> Inl e
      | Inr (outputs, ls) \<Rightarrow> Inr (outputs, net\<lparr>layers := ls\<rparr>))"

definition computeError :: "MultiLayerPerceptron \<Rightarrow> jsnum list \<Rightarrow> jsnum list \<Rightarrow> jsnum" where
  "computeError net predictions ts = errorFunction net predictions ts"

definition backpropagate :: "MultiLayerPerceptron \<Rightarrow> jsnum list \<Rightarrow> jsnum list \<Rightarrow> MultiLayerPerceptron" where
  "backpropagate net ts predictions =
     net\<lparr>layers := backpropagate_layers (learningRate net) ts predictions (layers net)\<rparr>"

text \<open>
  \<open>train\<close>. A training sample is an object \<open>{inputs, targets}\<close>. The callback is a
  function of the iteration number and the average error whose result is read for its
  truthiness only; the calls made are returned in order beside the trained network, so
  that they can be stated. An exception of \<open>#predict\<close> leaves \<open>train\<close>.
\<close>

record sample =
  inputs :: "jsnum list"
  targets :: "jsnum list"

definition train_sample :: "MultiLayerPerceptron \<Rightarrow> sample \<Rightarrow> error + (jsnum \<times> MultiLayerPerceptron)" where
  "train_sample net s =
     (case predict net (inputs s) of
        Inl e \<Rightarrow> Inl e
      | Inr (predictions, net') \<Rightarrow>
          Inr (computeError net' predictions (targets s), backpropagate net' (targets s) predictions))"

function train_samples ::
  "MultiLayerPerceptron \<Rightarrow> sample list \<Rightarrow> nat \<Rightarrow> jsnum \<Rightarrow> error + (jsnum \<times> MultiLayerPerceptron)" where
  "train_samples net trainingData i totalError =
     (if i < length trainingData
      then (case train_sample net (trainingData ! i) of
              Inl e \<Rightarrow> Inl e
            | Inr (err, net') \<Rightarrow> train_samples net' trainingData (i + 1) (totalError + err))
      else Inr (totalError, net))"
  by pat_completeness auto
termination
  by (relation "measure (\<lambda>(net, trainingData, i, totalError). length trainingData - i)") auto

function train_epochs ::
  "(nat \<Rightarrow> jsnum \<Rightarrow> bool) \<Rightarrow> sample list \<Rightarrow> nat \<Rightarrow> nat \<Rightarrow> MultiLayerPerceptron \<Rightarrow>
   error + (MultiLayerPerceptron \<times> (nat \<times> jsnum) list)" where
  "train_epochs cb trainingData epochs iteration net =
     (if iteration \<le> epochs
      then (case train_samples net trainingData 0 0 of
              Inl e \<Rightarrow> Inl e
            | Inr (totalError, net') \<Rightarrow>
                let averageError = totalError / Num (real (length trainingData));
                    shouldStop = cb iteration averageError
                in if shouldStop then Inr (net', [(iteration, averageError)])
                   else (case train_epochs cb trainingData epochs (iteration + 1) net' of
                           Inl e \<Rightarrow> Inl e
                         | Inr (net'', calls) \<Rightarrow> Inr (net'', (iteration, averageError) # calls)))
      else Inr (net, []))"
  by pat_completeness auto
termination
  by (relation "measure (\<lambda>(cb, trainingData, epochs, iteration, net). Suc epochs - iteration)") auto

definition train ::
  "MultiLayerPerceptron \<Rightarrow> sample list \<Rightarrow> nat \<Rightarrow> (nat \<Rightarrow> jsnum \<Rightarrow> bool) option \<Rightarrow>
   error + (MultiLayerPerceptron \<times> (nat \<times> jsnum) list)" where
  "train net trainingData epochs callback =
     train_epochs (case callback of Some f \<Rightarrow> f | None \<Rightarrow> (\<lambda>iteration averageError. False))
       trainingData epochs 1 net"

section \<open>utils.js: distance, normalization, nearest points\<close>

type_synonym point = "jsnum list"

text \<open>\<open>x ** 2\<close> and \<open>Math.sqrt\<close>.\<close>

definition pow2 :: "jsnum \<Rightarrow> jsnum" where
  "pow2 x = x * x"

fun Math_sqrt :: "jsnum \<Rightarrow> jsnum" where
  "Math_sqrt (Num a) = (if a < 0 then NaN else Num (sqrt a))"
| "Math_sqrt PInf = PInf"
| "Math_sqrt NInf = NaN"
| "Math_sqrt NaN = NaN"

text \<open>\<open>Object.keys(a)\<close> of an array are its indices in order; \<open>b[key]\<close> may be missing.\<close>

definition euclideanDistance :: "point \<Rightarrow> point \<Rightarrow> jsnum" where
  "euclideanDistance a b =
     Math_sqrt (foldl (\<lambda>carry key. carry + pow2 (num_at a key - num_at b key)) 0 [0..<length a])"

definition inverseLerp :: "jsnum \<Rightarrow> jsnum \<Rightarrow> jsnum \<Rightarrow> jsnum" where
  "inverseLerp from to val = (val - from) / (to - from)"

text \<open>
  \<open>Math.min\<close> and \<open>Math.max\<close> of a spread array: NaN as soon as one argument is NaN,
  \<open>Infinity\<close> and \<open>-Infinity\<close> on no argument.
\<close>

definition js_min :: "jsnum \<Rightarrow> jsnum \<Rightarrow> jsnum" where
  "js_min a b = (if a = NaN \<or> b = NaN then NaN else if b < a then b else a)"

definition js_max :: "jsnum \<Rightarrow> jsnum \<Rightarrow> jsnum" where
  "js_max a b = (if a = NaN \<or> b = NaN then NaN else if a < b then b else a)"

definition Math_min :: "jsnum list \<Rightarrow> jsnum" where
  "Math_min xs = foldl js_min PInf xs"

definition Math_max :: "jsnum list \<Rightarrow> jsnum" where
  "Math_max xs = foldl js_max NInf xs"

text \<open>
  \<open>minMaxPoints\<close> reads \<open>points[0].length\<close>, a TypeError on an empty array. The pair it
  pushes for feature \<open>i\<close> comes from \<open>Math.min\<close> and \<open>Math.max\<close> over \<open>v[i]\<close> of every point;
  the loop before it sets two locals that are never read.
\<close>

definition minMaxPoints :: "point list \<Rightarrow> error + (jsnum \<times> jsnum) list" where
  "minMaxPoints points =
     (case points of
        [] \<Rightarrow> Inl TypeError
      | p0 # _ \<Rightarrow>
          Inr (map (\<lambda>i. (Math_min (map (\<lambda>v. num_at v i) points), Math_max (map (\<lambda>v. num_at v i) points)))
                   [0..<length p0]))"

text \<open>
  \<open>normalizePoints\<close>: \<open>_minMax[j][0]\<close> is a TypeError when a row has more entries than
  \<open>_minMax\<close>.
\<close>

definition normalizePoints :: "point list \<Rightarrow> (jsnum \<times> jsnum) list option \<Rightarrow> error + point list" where
  "normalizePoints data minMax =
     (case (case minMax of Some m \<Rightarrow> Inr m | None \<Rightarrow> minMaxPoints data) of
        Inl e \<Rightarrow> Inl e
      | Inr mm \<Rightarrow>
          if list_all (\<lambda>row. length row \<le> length mm) data
          then Inr (map (\<lambda>row. map (\<lambda>j. inverseLerp (fst (mm ! j)) (snd (mm ! j)) (row ! j))
                                  [0..<length row]) data)
          else Inl TypeError)"

text \<open>
  \<open>Array.prototype.sort\<close> with a comparator is a stable sort; a comparator result of NaN
  counts as 0. It is modelled as a stable insertion sort: an element moves behind
  another one only where the comparator is positive. Where the comparator is a
  consistent order, every stable sort returns this list; where it is not (a NaN distance
  among numbers), the order the engine returns is implementation-defined.
\<close>

fun insert_sorted :: "('a \<Rightarrow> 'a \<Rightarrow> jsnum) \<Rightarrow> 'a \<Rightarrow> 'a list \<Rightarrow> 'a list" where
  "insert_sorted cmp x [] = [x]"
| "insert_sorted cmp x (y # ys) =
     (if 0 < cmp x y then y # insert_sorted cmp x ys else x # y # ys)"

definition Array_sort :: "('a \<Rightarrow> 'a \<Rightarrow> jsnum) \<Rightarrow> 'a list \<Rightarrow> 'a list" where
  "Array_sort cmp xs = foldr (insert_sorted cmp) xs []"

text \<open>\<open>slice(0, end)\<close>: a negative \<open>end\<close> counts from the end of the array.\<close>

definition slice0 :: "'a list \<Rightarrow> int \<Rightarrow> 'a list" where
  "slice0 xs e = (if e < 0 then take (nat (int (length xs) + e)) xs else take (nat e) xs)"

record entry =
  index :: nat
  point :: point
  distance :: jsnum

definition nearestPoints ::
  "point \<Rightarrow> point list \<Rightarrow> int \<Rightarrow> (point \<Rightarrow> point \<Rightarrow> jsnum) option \<Rightarrow> entry list" where
  "nearestPoints q points kk metric =
     slice0
       (Array_sort (\<lambda>a b. distance a - distance b)
          (map (\<lambda>i. \<lparr> index = i, point = points ! i,
                       distance = (case metric of Some d \<Rightarrow> d | None \<Rightarrow> euclideanDistance) q (points ! i) \<rparr>)
               [0..<length points]))
       kk"

section \<open>KNNClassifier\<close>

text \<open>
  A stored label is \<open>None\<close> where \<open>train\<close> read \<open>labels[i]\<close> past the end of \<open>labels\<close>
  (\<open>undefined\<close>). \<open>predict\<close> returns a number on a regression task and an object
  \<open>{predictedLabel, maxVotes}\<close> otherwise; the two branches are \<open>predict_regression\<close>, on
  numeric labels, and \<open>KNN_predict\<close>, on labels given as the property key they convert to.
\<close>

record 'l neighbor = entry +
  label :: "'l option"

record 'l KNNClassifier =
  distanceMetric :: "(point \<Rightarrow> point \<Rightarrow> jsnum) option"
  normalization :: bool
  regression :: bool
  trainingFeatures :: "point list"
  trainingLabels :: "'l option list"
  k :: int

definition new_KNNClassifier :: "int \<Rightarrow> 'l KNNClassifier" where
  "new_KNNClassifier kk =
     \<lparr> distanceMetric = None, normalization = False, regression = False,
       trainingFeatures = [], trainingLabels = [], k = kk \<rparr>"

definition withDistanceMetric :: "(point \<Rightarrow> point \<Rightarrow> jsnum) \<Rightarrow> 'l KNNClassifier \<Rightarrow> 'l KNNClassifier" where
  "withDistanceMetric d st = st\<lparr>distanceMetric := Some d\<rparr>"

definition withNormalization :: "bool \<Rightarrow> 'l KNNClassifier \<Rightarrow> 'l KNNClassifier" where
  "withNormalization b st = st\<lparr>normalization := b\<rparr>"

definition withRegression :: "bool \<Rightarrow> 'l KNNClassifier \<Rightarrow> 'l KNNClassifier" where
  "withRegression b st = st\<lparr>regression := b\<rparr>"

definition findNearestNeighbors :: "'l KNNClassifier \<Rightarrow> point \<Rightarrow> 'l neighbor list" where
  "findNearestNeighbors st q =
     map (\<lambda>e. \<lparr> index = index e, point = point e, distance = distance e,
                 label = (if index e < length (trainingLabels st) then trainingLabels st ! index e
                          else None) \<rparr>)
         (nearestPoints q (trainingFeatures st) (k st) (distanceMetric st))"

text \<open>
  \<open>train\<close>: the batch is normalized on its own when normalization is on, then appended
  with \<open>labels[i]\<close> for each of its points.
\<close>

definition KNN_train :: "'l KNNClassifier \<Rightarrow> point list \<Rightarrow> 'l list \<Rightarrow> error + 'l KNNClassifier" where
  "KNN_train st features labels =
     (case (if normalization st then normalizePoints features None else Inr features) of
        Inl e \<Rightarrow> Inl e
      | Inr fs \<Rightarrow>
          Inr (st\<lparr> trainingFeatures := trainingFeatures st @ fs,
                   trainingLabels := trainingLabels st
                     @ map (\<lambda>i. if i < length labels then Some (labels ! i) else None) [0..<length fs] \<rparr>))"

text \<open>The first statement of \<open>predict\<close>: the point the search runs on.\<close>

definition query_point :: "'l KNNClassifier \<Rightarrow> point \<Rightarrow> error + point" where
  "query_point st feature =
     (if normalization st
      then (case normalizePoints (feature # trainingFeatures st) None of
              Inl e \<Rightarrow> Inl e
            | Inr ps \<Rightarrow> Inr (ps ! 0))
      else Inr feature)"

definition getAvgValues :: "jsnum neighbor list \<Rightarrow> jsnum" where
  "getAvgValues neighbors =
     foldl (\<lambda>sum n. sum + (case label n of Some v \<Rightarrow> v | None \<Rightarrow> NaN)) 0 neighbors
     / Num (real (length neighbors))"

definition predict_regression :: "jsnum KNNClassifier \<Rightarrow> point \<Rightarrow> error + jsnum" where
  "predict_regression st feature =
     (case query_point st feature of
        Inl e \<Rightarrow> Inl e
      | Inr q \<Rightarrow> Inr (getAvgValues (findNearestNeighbors st q)))"

text \<open>
  The vote tally is an object, written here as the list of its own properties in the
  order \<open>for ... in\<close> visits them: the keys that are array indices (canonical decimal
  strings below \<open>2^32 - 1\<close>) in ascending numeric order, then the other keys in the order
  they were created.
\<close>

definition digit :: "char \<Rightarrow> nat option" where
  "digit c = map_of (zip ''0123456789'' [0..<10]) c"

fun decimal :: "nat \<Rightarrow> string \<Rightarrow> nat option" where
  "decimal acc [] = Some acc"
| "decimal acc (c # cs) = (case digit c of None \<Rightarrow> None | Some d \<Rightarrow> decimal (10 * acc + d) cs)"

definition arrayIndex :: "string \<Rightarrow> nat option" where
  "arrayIndex s =
     (if s = [] \<or> (hd s = CHR ''0'' \<and> tl s \<noteq> []) then None
      else (case decimal 0 s of
              None \<Rightarrow> None
            | Some n \<Rightarrow> if n < 4294967295 then Some n else None))"

fun obj_set :: "(string \<times> 'v) list \<Rightarrow> string \<Rightarrow> 'v \<Rightarrow> (string \<times> 'v) list" where
  "obj_set [] key v = [(key, v)]"
| "obj_set ((key', v') # rest) key v =
     (if key' = key then (key, v) # rest
      else (case arrayIndex key of
              None \<Rightarrow> (key', v') # obj_set rest key v
            | Some i \<Rightarrow>
                (case arrayIndex key' of
                   None \<Rightarrow> (key, v) # (key', v') # rest
                 | Some i' \<Rightarrow> if i < i' then (key, v) # (key', v') # rest
                             else (key', v') # obj_set rest key v)))"

text \<open>
  \<open>#getVotes\<close>. The tally starts as \<open>{}\<close>, which inherits the properties of
  \<open>Object.prototype\<close>: for a label of such a name, \<open>carry[label]\<close> is a function (an
  object for \<open>__proto__\<close>), \<open>(carry[label] || 0) + 1\<close> is a string, and every later
  increment appends to that string. Assigning \<open>__proto__\<close> a string changes nothing.
  A label \<open>None\<close> is the key \<open>undefined\<close>.
\<close>

datatype vote = Count nat | Text

definition objectPrototypeKeys :: "string list" where
  "objectPrototypeKeys =
     [''constructor'', ''__defineGetter__'', ''__defineSetter__'', ''hasOwnProperty'',
      ''__lookupGetter__'', ''__lookupSetter__'', ''isPrototypeOf'', ''propertyIsEnumerable'',
      ''toString'', ''valueOf'', ''__proto__'', ''toLocaleString'']"

definition label_key :: "string option \<Rightarrow> string" where
  "label_key l = (case l of Some s \<Rightarrow> s | None \<Rightarrow> ''undefined'')"

definition add_vote :: "(string \<times> vote) list \<Rightarrow> string \<Rightarrow> (string \<times> vote) list" where
  "add_vote carry key =
     (let new = (case map_of carry key of
                   Some (Count n) \<Rightarrow> Count (n + 1)
                 | Some Text \<Rightarrow> Text
                 | None \<Rightarrow> if key \<in> set objectPrototypeKeys then Text else Count 1)
      in if key = ''__proto__'' then carry else obj_set carry key new)"

definition getVotes :: "string neighbor list \<Rightarrow> (string \<times> vote) list" where
  "getVotes neighbors = foldl (\<lambda>carry neighbor. add_vote carry (label_key (label neighbor))) [] neighbors"

text \<open>
  The loop of \<open>predict\<close> over the tally: a count replaces the maximum only when strictly
  greater; a string compares as NaN and never does.
\<close>

record prediction =
  predictedLabel :: "string option"
  maxVotes :: nat

fun max_votes :: "(string \<times> vote) list \<Rightarrow> prediction \<Rightarrow> prediction" where
  "max_votes [] best = best"
| "max_votes ((l, Count n) # votes) best =
     (if n > maxVotes best then max_votes votes \<lparr> predictedLabel = Some l, maxVotes = n \<rparr>
      else max_votes votes best)"
| "max_votes ((l, Text) # votes) best = max_votes votes best"

definition KNN_predict :: "string KNNClassifier \<Rightarrow> point \<Rightarrow> error + prediction" where
  "KNN_predict st feature =
     (case query_point st feature of
        Inl e \<Rightarrow> Inl e
      | Inr q \<Rightarrow>
          Inr (max_votes (getVotes (findNearestNeighbors st q)) \<lparr> predictedLabel = None, maxVotes = 0 \<rparr>))"

section \<open>The training loop as the specification words it\<close>

text \<open>
  An epoch folds the samples in their order, each one through predict, loss and
  backpropagation, summing the loss; the epochs run over the numbers 1 to \<open>epochs\<close>;
  after each, the callback gets the epoch number and the mean loss, and a truthy result
  ends the training; an omitted callback never does.
\<close>

definition epoch_step ::
  "error + (jsnum \<times> MultiLayerPerceptron) \<Rightarrow> sample \<Rightarrow> error + (jsnum \<times> MultiLayerPerceptron)" where
  "epoch_step acc s =
     (case acc of
        Inl e \<Rightarrow> Inl e
      | Inr (totalLoss, net) \<Rightarrow>
          (case train_sample net s of
             Inl e \<Rightarrow> Inl e
           | Inr (loss, net') \<Rightarrow> Inr (totalLoss + loss, net')))"

definition run_epoch :: "MultiLayerPerceptron \<Rightarrow> sample list \<Rightarrow> error + (jsnum \<times> MultiLayerPerceptron)" where
  "run_epoch net trainingSamples = foldl epoch_step (Inr (0, net)) trainingSamples"

fun run_epochs ::
  "(nat \<Rightarrow> jsnum \<Rightarrow> bool) \<Rightarrow> sample list \<Rightarrow> nat list \<Rightarrow> MultiLayerPerceptron \<Rightarrow>
   error + (MultiLayerPerceptron \<times> (nat \<times> jsnum) list)" where
  "run_epochs onEpoch trainingSamples [] net = Inr (net, [])"
| "run_epochs onEpoch trainingSamples (epochNumber # later) net =
     (case run_epoch net trainingSamples of
        Inl e \<Rightarrow> Inl e
      | Inr (totalLoss, net') \<Rightarrow>
          let meanLoss = totalLoss / Num (real (length trainingSamples))
          in if onEpoch epochNumber meanLoss then Inr (net', [(epochNumber, meanLoss)])
             else (case run_epochs onEpoch trainingSamples later net' of
                     Inl e \<Rightarrow> Inl e
                   | Inr (net'', calls) \<Rightarrow> Inr (net'', (epochNumber, meanLoss) # calls)))"

definition on_epoch :: "(nat \<Rightarrow> jsnum \<Rightarrow> bool) option \<Rightarrow> nat \<Rightarrow> jsnum \<Rightarrow> bool" where
  "on_epoch callback = (case callback of Some f \<Rightarrow> f | None \<Rightarrow> (\<lambda>epochNumber meanLoss. False))"

definition train_spec ::
  "MultiLayerPerceptron \<Rightarrow> sample list \<Rightarrow> nat \<Rightarrow> (nat \<Rightarrow> jsnum \<Rightarrow> bool) option \<Rightarrow>
   error + (MultiLayerPerceptron \<times> (nat \<times> jsnum) list)" where
  "train_spec net trainingSamples epochs callback =
     run_epochs (on_epoch callback) trainingSamples [1..<epochs + 1] net"

section \<open>The vote as the specification words it\<close>

text \<open>
  The labels in the order they were first encountered among the neighbours, each with
  its count, and the first label with the highest count.
\<close>

definition first_seen :: "'a list \<Rightarrow> 'a list" where
  "first_seen ls = rev (remdups (rev ls))"

fun highest_count :: "(string \<times> nat) list \<Rightarrow> prediction \<Rightarrow> prediction" where
  "highest_count [] best = best"
| "highest_count ((l, n) # tally) best =
     (if n > maxVotes best then highest_count tally \<lparr> predictedLabel = Some l, maxVotes = n \<rparr>
      else highest_count tally best)"

definition vote_as_specified :: "string list \<Rightarrow> prediction" where
  "vote_as_specified ls =
     highest_count (map (\<lambda>l. (l, count_list ls l)) (first_seen ls)) \<lparr> predictedLabel = None, maxVotes = 0 \<rparr>"

section \<open>The iteration order of the tally\<close>

text \<open>
  The order in which \<open>for ... in\<close> visits the labels \<open>ls\<close> of a tally: labels that are
  array indices first, in ascending numeric order, then the other labels in the order
  they were first encountered.
\<close>

definition first_pos :: "'a list \<Rightarrow> 'a \<Rightarrow> nat" where
  "first_pos xs x = length (takeWhile (\<lambda>y. y \<noteq> x) xs)"

definition visited_before :: "string list \<Rightarrow> string \<Rightarrow> string \<Rightarrow> bool" where
  "visited_before ls a b =
     (case arrayIndex a of
        Some i \<Rightarrow> (case arrayIndex b of Some j \<Rightarrow> i < j | None \<Rightarrow> True)
      | None \<Rightarrow> (case arrayIndex b of Some j \<Rightarrow> False | None \<Rightarrow> first_pos ls a < first_pos ls b))"

text \<open>The test by which \<open>obj_set\<close> places a new key in front of an existing one.\<close>

definition placed_before :: "string \<Rightarrow> string \<Rightarrow> bool" where
  "placed_before key key' =
     (case arrayIndex key of
        None \<Rightarrow> False
      | Some i \<Rightarrow> (case arrayIndex key' of None \<Rightarrow> True | Some i' \<Rightarrow> i < i'))"

text \<open>
  What holds of the tally \<open>vs\<close> after the labels \<open>seen\<close> have been counted: its keys are
  the labels seen, in the order of iteration, each with its count.
\<close>

definition tally_ok :: "string list \<Rightarrow> (string \<times> vote) list \<Rightarrow> bool" where
  "tally_ok seen vs \<longleftrightarrow>
     sorted_wrt (visited_before seen) (map fst vs) \<and> fst ` set vs = set seen \<and>
     list_all (\<lambda>l. map_of vs l = Some (Count (count_list seen l))) seen"

section \<open>Gradients by layer\<close>

text \<open>
  The gradients the loop of \<open>#backpropagate\<close> computes at layer \<open>c > 0\<close>, in terms of the
  layers \<open>ls\<close> before the call and the layers \<open>r\<close> after it.
\<close>

definition layer_gradients ::
  "jsnum list \<Rightarrow> jsnum list \<Rightarrow> NetworkLayer list \<Rightarrow> NetworkLayer list \<Rightarrow> nat \<Rightarrow> jsnum list" where
  "layer_gradients ts ps ls r c =
     (if c = length ls - 1 then output_gradients (ls ! c) ts ps
      else hidden_gradients (ls ! c) (r ! (c + 1)))"

section \<open>Example data\<close>

text \<open>A layer of two neurons on two inputs.\<close>

definition demo_layer :: NetworkLayer where
  "demo_layer = \<lparr> numNeurons = 2, numInputs = 2,
                   weights = [[Num 1, Num 2], [Num 3, Num (-4)]],
                   biases = [Num 1, Num (-1)], activations = [], gradients = [] \<rparr>"

text \<open>A network of three layers, as it stands after a forward pass on \<open>[1, 1]\<close>.\<close>

definition demo_net :: MultiLayerPerceptron where
  "demo_net =
     \<lparr> activationFunction = reLU, errorFunction = mse, learningRate = Num 1,
       layers =
         [\<lparr> numNeurons = 2, numInputs = 2, weights = [[Num 1, Num 0], [Num 0, Num 1]],
             biases = [Num 0, Num 0], activations = [Num 1, Num 1], gradients = [] \<rparr>,
          \<lparr> numNeurons = 2, numInputs = 2, weights = [[Num 1, Num 1], [Num 1, Num (-1)]],
             biases = [Num 0, Num 1], activations = [Num 2, Num 1], gradients = [] \<rparr>,
          \<lparr> numNeurons = 1, numInputs = 2, weights = [[Num 1, Num 2]],
             biases = [Num 0], activations = [Num 4], gradients = [] \<rparr>] \<rparr>"

text \<open>A network of two layers of one neuron each, before any forward pass, and two samples.\<close>

definition tiny_net :: MultiLayerPerceptron where
  "tiny_net =
     \<lparr> activationFunction = reLU, errorFunction = mse, learningRate = Num (1/2),
       layers =
         [\<lparr> numNeurons = 1, numInputs = 1, weights = [[Num 1]], biases = [Num 0],
             activations = [], gradients = [] \<rparr>,
          \<lparr> numNeurons = 1, numInputs = 1, weights = [[Num 1]], biases = [Num 0],
             activations = [], gradients = [] \<rparr>] \<rparr>"

definition tiny_sample :: sample where
  "tiny_sample = \<lparr> inputs = [Num 2], targets = [Num 1] \<rparr>"

definition bad_sample :: sample where
  "bad_sample = \<lparr> inputs = [Num 2, Num 3], targets = [Num 1] \<rparr>"

definition tiny_layers :: "jsnum \<Rightarrow> jsnum \<Rightarrow> jsnum \<Rightarrow> jsnum \<Rightarrow> NetworkLayer list" where
  "tiny_layers w b a g =
     [\<lparr> numNeurons = 1, numInputs = 1, weights = [[Num 1]], biases = [Num 0],
         activations = [Num 2], gradients = [] \<rparr>,
      \<lparr> numNeurons = 1, numInputs = 1, weights = [[w]], biases = [b],
         activations = [a], gradients = [g] \<rparr>]"

text \<open>Three points in the plane.\<close>

definition demo_points :: "point list" where
  "demo_points = [[Num 3, Num 4], [Num 0, Num 1], [Num 0, Num 2]]"

text \<open>A classifier with normalization on that holds one point labelled A.\<close>

definition demo_knn :: "string KNNClassifier" where
  "demo_knn =
     \<lparr> distanceMetric = None, normalization = True, regression = False,
       trainingFeatures = [[Num 5, Num 1]], trainingLabels = [Some ''A''], k = 1 \<rparr>"

text \<open>A classifier with normalization on, before and after training on the batch 0, 10.\<close>

definition knn_fresh :: "string KNNClassifier" where
  "knn_fresh = withNormalization True (new_KNNClassifier 1)"

definition knn_trained :: "string KNNClassifier" where
  "knn_trained = knn_fresh\<lparr> trainingFeatures := [[Num 0], [Num 1]], trainingLabels := [Some ''lo'', Some ''hi''] \<rparr>"

text \<open>The training set of the specification's example, with \<open>k = 1\<close>.\<close>

definition iris_knn :: "string KNNClassifier" where
  "iris_knn =
     \<lparr> distanceMetric = None, normalization = False, regression = False,
       trainingFeatures = [[Num 5.1, Num 3.5, Num 1.4, Num 0.2],
                           [Num 4.9, Num 3.0, Num 1.4, Num 0.2],
                           [Num 7.0, Num 3.2, Num 4.7, Num 1.4]],
       trainingLabels = [Some ''A'', Some ''A'', Some ''B''], k = 1 \<rparr>"

text \<open>Two points labelled 2 and 1, with \<open>k = 2\<close>.\<close>

definition tie_knn :: "string KNNClassifier" where
  "tie_knn =
     \<lparr> distanceMetric = None, normalization = False, regression = False,
       trainingFeatures = [[Num 0], [Num 1]],
       trainingLabels = [Some ''2'', Some ''1''], k = 2 \<rparr>"

text \<open>Three stored points, the second one NaN, with \<open>k = 5\<close>.\<close>

definition nan_points :: "point list" where
  "nan_points = [[Num 1], [NaN], [Num 0]]"

definition nan_knn :: "string KNNClassifier" where
  "nan_knn =
     \<lparr> distanceMetric = None, normalization = False, regression = False,
       trainingFeatures = nan_points,
       trainingLabels = [Some ''a'', Some ''b'', Some ''c''], k = 5 \<rparr>"

section \<open>Properties of the layer\<close>

lemma new_NetworkLayer_ok: "layer_ok (new_NetworkLayer n m rnd)"
  by (simp add: layer_ok_def new_NetworkLayer_def list_all_iff)

lemma num_at_nth: "i < length xs \<Longrightarrow> num_at xs i = xs ! i"
  by (simp add: num_at_def)

lemma weighted_sum_nth:
  assumes "length row = m" and "length xs = m"
  shows "weighted_sum row xs m = foldl (\<lambda>a j. a + row ! j * xs ! j) 0 [0..<m]"
  unfolding weighted_sum_def
  by (rule foldl_cong) (simp_all add: num_at_nth assms)

lemma layer_ok_row: "layer_ok l \<Longrightarrow> i < numNeurons l \<Longrightarrow> length (weights l ! i) = numInputs l"
  by (simp add: layer_ok_def list_all_length)

text \<open>
  C2. On an input vector of the configured length, \<open>activate\<close> returns a vector with one
  entry per neuron, entry \<open>i\<close> being the activation function applied to the sum (taken in
  index order from 0) of \<open>W[i][j] * inputs[j]\<close> plus \<open>b[i]\<close>, and the layer afterwards
  differs from the layer before only in holding that vector as its activations.
\<close>

theorem activate_forward:
  assumes "layer_ok l" and "length xs = numInputs l"
  shows "\<exists>outs. activate l xs f = Inr (outs, l\<lparr>activations := outs\<rparr>) \<and>
           length outs = numNeurons l \<and>
           (\<forall>i<numNeurons l.
              outs ! i = f (foldl (\<lambda>a j. a + weights l ! i ! j * xs ! j) 0 [0..<numInputs l]
                            + biases l ! i))"
proof -
  define outs where
    "outs = map (\<lambda>i. f (weighted_sum (weights l ! i) xs (numInputs l) + num_at (biases l) i))
                [0..<numNeurons l]"
  have run: "activate l xs f = Inr (outs, l\<lparr>activations := outs\<rparr>)"
    using assms(2) by (simp add: activate_def outs_def Let_def)
  have len: "length outs = numNeurons l"
    by (simp add: outs_def)
  have entry: "outs ! i = f (foldl (\<lambda>a j. a + weights l ! i ! j * xs ! j) 0 [0..<numInputs l]
                             + biases l ! i)" if "i < numNeurons l" for i
  proof -
    have "weighted_sum (weights l ! i) xs (numInputs l)
            = foldl (\<lambda>a j. a + weights l ! i ! j * xs ! j) 0 [0..<numInputs l]"
      using weighted_sum_nth layer_ok_row assms that by simp
    moreover have "num_at (biases l) i = biases l ! i"
      using assms(1) that by (simp add: layer_ok_def num_at_nth)
    ultimately show ?thesis
      using that by (simp add: outs_def)
  qed
  from run len entry show ?thesis by blast
qed

theorem activate_forward_witness:
  "layer_ok demo_layer \<and> length [Num 1, Num 1] = numInputs demo_layer \<and>
   (\<exists>outs. activate demo_layer [Num 1, Num 1] reLU = Inr (outs, demo_layer\<lparr>activations := outs\<rparr>) \<and>
      length outs = numNeurons demo_layer \<and>
      (\<forall>i<numNeurons demo_layer.
         outs ! i = reLU (foldl (\<lambda>a j. a + weights demo_layer ! i ! j * [Num 1, Num 1] ! j) 0
                            [0..<numInputs demo_layer] + biases demo_layer ! i)))"
proof -
  have ok: "layer_ok demo_layer"
    by (simp add: layer_ok_def demo_layer_def)
  have len: "length [Num 1, Num 1] = numInputs demo_layer"
    by (simp add: demo_layer_def)
  from activate_forward [OF ok len, of reLU] ok len show ?thesis
    by blast
qed

section \<open>Properties of backpropagation\<close>

lemma length_backprop_loop: "length (backprop_loop rate ts ps i ls) = length ls"
  by (induction i arbitrary: ls) (simp_all add: Let_def)

lemma backprop_loop_above: "i < c \<Longrightarrow> backprop_loop rate ts ps i ls ! c = ls ! c"
  by (induction i arbitrary: ls) (simp_all add: Let_def)

lemma backprop_loop_first: "backprop_loop rate ts ps i ls ! 0 = ls ! 0"
  by (induction i arbitrary: ls) (simp_all add: Let_def)

lemma backprop_loop_layer:
  "0 < c \<Longrightarrow> c \<le> i \<Longrightarrow> i < length ls \<Longrightarrow>
   backprop_loop rate ts ps i ls ! c =
     update_layer rate (layer_gradients ts ps ls (backprop_loop rate ts ps i ls) c) (ls ! (c - 1)) (ls ! c)"
proof (induction i arbitrary: ls)
  case 0
  then show ?case by simp
next
  case (Suc i)
  define g where
    "g = (if Suc i = length ls - 1 then output_gradients (ls ! Suc i) ts ps
          else hidden_gradients (ls ! Suc i) (ls ! (Suc i + 1)))"
  define ls1 where "ls1 = ls[Suc i := update_layer rate g (ls ! i) (ls ! Suc i)]"
  have step: "backprop_loop rate ts ps (Suc i) ls = backprop_loop rate ts ps i ls1"
    by (simp add: ls1_def g_def Let_def)
  have len1: "length ls1 = length ls"
    by (simp add: ls1_def)
  show ?case
  proof (cases "c = Suc i")
    case True
    have "backprop_loop rate ts ps i ls1 ! c = ls1 ! c"
      using True by (simp add: backprop_loop_above)
    also have "\<dots> = update_layer rate g (ls ! i) (ls ! Suc i)"
      using True Suc.prems by (simp add: ls1_def)
    finally have res: "backprop_loop rate ts ps i ls1 ! c = update_layer rate g (ls ! i) (ls ! Suc i)" .
    have "backprop_loop rate ts ps i ls1 ! (c + 1) = ls ! (c + 1)"
      using True by (simp add: backprop_loop_above ls1_def)
    then have "layer_gradients ts ps ls (backprop_loop rate ts ps i ls1) c = g"
      using True by (simp add: layer_gradients_def g_def)
    with res step True show ?thesis by simp
  next
    case False
    with Suc.prems have c: "0 < c" "c \<le> i" "i < length ls1"
      by (simp_all add: len1)
    have same: "ls1 ! c = ls ! c" "ls1 ! (c - 1) = ls ! (c - 1)"
      using c by (simp_all add: ls1_def)
    have "layer_gradients ts ps ls1 (backprop_loop rate ts ps i ls1) c
            = layer_gradients ts ps ls (backprop_loop rate ts ps i ls1) c"
      using same by (auto simp add: layer_gradients_def len1)
    with Suc.IH [OF c] same step show ?thesis by simp
  qed
qed

lemma update_layer_fields [simp]:
  "numNeurons (update_layer rate g p c) = numNeurons c"
  "numInputs (update_layer rate g p c) = numInputs c"
  "activations (update_layer rate g p c) = activations c"
  "gradients (update_layer rate g p c) = g"
  by (simp_all add: update_layer_def)

lemma backpropagate_layers_result:
  assumes "0 < c" and "c < length ls"
  shows "backpropagate_layers rate ts ps ls ! c =
           update_layer rate (layer_gradients ts ps ls (backpropagate_layers rate ts ps ls) c)
             (ls ! (c - 1)) (ls ! c)"
proof -
  from assms have ne: "ls \<noteq> []" by auto
  have "c \<le> length ls - 1" "length ls - 1 < length ls"
    using assms by simp_all
  from backprop_loop_layer [OF assms(1) this] ne show ?thesis
    by (simp add: backpropagate_layers_def)
qed

lemma backpropagate_layers_first: "backpropagate_layers rate ts ps ls ! 0 = ls ! 0"
  by (simp add: backpropagate_layers_def backprop_loop_first)

lemma length_backpropagate_layers: "length (backpropagate_layers rate ts ps ls) = length ls"
  by (simp add: backpropagate_layers_def length_backprop_loop)

lemma nth_output_gradients:
  "j < numNeurons c \<Longrightarrow>
   output_gradients c ts ps ! j =
     (num_at ts j - num_at ps j) * (num_at (activations c) j * (1 - num_at (activations c) j))"
  by (simp add: output_gradients_def Let_def)

lemma nth_hidden_gradients:
  "j < numNeurons c \<Longrightarrow>
   hidden_gradients c nx ! j =
     foldl (\<lambda>g k. g + num_at (weights nx ! k) j * num_at (gradients nx) k) 0 [0..<numNeurons nx]
     * (num_at (activations c) j * (1 - num_at (activations c) j))"
  by (simp add: hidden_gradients_def Let_def)

text \<open>
  C1. After \<open>#backpropagate\<close> on a network of at least two layers, the gradient stored in the
  output layer is, for every neuron \<open>j\<close>, \<open>(targets[j] - predictions[j]) * (a[j] * (1 - a[j]))\<close>,
  and the gradient stored in a hidden layer is, for every neuron \<open>j\<close>, the sum over \<open>k\<close>
  (from 0, in index order) of \<open>nextLayer.weights[k][j] * nextLayer.gradients[k]\<close> times
  \<open>a[j] * (1 - a[j])\<close>, where \<open>a\<close> is the layer's stored activation vector and the next
  layer is read as the sweep has left it (its weights already updated). The configured
  activation function has no part in it. \<open>num_at xs j\<close> is the read \<open>xs[j]\<close>.
\<close>

theorem backpropagate_gradients:
  fixes net :: MultiLayerPerceptron and ts ps :: "jsnum list"
  defines "L \<equiv> layers net" and "L' \<equiv> layers (backpropagate net ts ps)"
  assumes "2 \<le> length L"
  shows "(\<forall>j<numNeurons (last L).
            gradients (last L') ! j =
              (num_at ts j - num_at ps j)
              * (num_at (activations (last L)) j * (1 - num_at (activations (last L)) j)))
       \<and> (\<forall>i j. 0 < i \<and> i < length L - 1 \<and> j < numNeurons (L ! i) \<longrightarrow>
            gradients (L' ! i) ! j =
              foldl (\<lambda>g k. g + num_at (weights (L' ! (i + 1)) ! k) j * num_at (gradients (L' ! (i + 1))) k)
                0 [0..<numNeurons (L ! (i + 1))]
              * (num_at (activations (L ! i)) j * (1 - num_at (activations (L ! i)) j)))
       \<and> (\<forall>f. layers (backpropagate (net\<lparr>activationFunction := f\<rparr>) ts ps) = L')"
proof (intro conjI allI impI)
  have L': "L' = backpropagate_layers (learningRate net) ts ps L"
    by (simp add: L'_def L_def backpropagate_def)
  have len: "length L' = length L"
    by (simp add: L' length_backpropagate_layers)
  from assms(3) have ne: "L \<noteq> []" "L' \<noteq> []"
    using len by auto
  have layer: "L' ! c = update_layer (learningRate net) (layer_gradients ts ps L L' c) (L ! (c - 1)) (L ! c)"
    if "0 < c" "c < length L" for c
    using backpropagate_layers_result [OF that] by (simp add: L')
  {
    fix j assume j: "j < numNeurons (last L)"
    have "last L' = L' ! (length L - 1)" "last L = L ! (length L - 1)"
      using ne len by (simp_all add: last_conv_nth)
    moreover have "0 < length L - 1" "length L - 1 < length L"
      using assms(3) by simp_all
    ultimately show "gradients (last L') ! j =
        (num_at ts j - num_at ps j)
        * (num_at (activations (last L)) j * (1 - num_at (activations (last L)) j))"
      using layer [of "length L - 1"] j
      by (simp add: layer_gradients_def nth_output_gradients)
  next
    fix i j assume h: "0 < i \<and> i < length L - 1 \<and> j < numNeurons (L ! i)"
    then have i: "0 < i" "i < length L" "i \<noteq> length L - 1" "0 < i + 1" "i + 1 < length L"
      by auto
    have nx: "numNeurons (L' ! (i + 1)) = numNeurons (L ! (i + 1))"
      using layer [OF i(4,5)] by simp
    show "gradients (L' ! i) ! j =
        foldl (\<lambda>g k. g + num_at (weights (L' ! (i + 1)) ! k) j * num_at (gradients (L' ! (i + 1))) k)
          0 [0..<numNeurons (L ! (i + 1))]
        * (num_at (activations (L ! i)) j * (1 - num_at (activations (L ! i)) j))"
      using layer [OF i(1,2)] i(3) h nx
      by (simp add: layer_gradients_def nth_hidden_gradients)
  next
    fix f show "layers (backpropagate (net\<lparr>activationFunction := f\<rparr>) ts ps) = L'"
      by (simp add: L'_def backpropagate_def)
  }
qed

text \<open>
  C3. One call of \<open>#backpropagate\<close> sets, in every layer \<open>i > 0\<close>, for every neuron \<open>j\<close>,
  \<open>weights[j][k]\<close> to its old value plus \<open>learningRate * gradients[j] * prevLayer.activations[k]\<close>
  for every \<open>k\<close> below the previous layer's neuron count, and \<open>biases[j]\<close> to its old value
  plus \<open>learningRate * gradients[j]\<close>, with the gradients of this call and the stored
  activations of the previous layer, which the call leaves as they are. Layer 0 is left
  unchanged in every field.
\<close>

theorem backpropagate_updates:
  fixes net :: MultiLayerPerceptron and ts ps :: "jsnum list"
  defines "L \<equiv> layers net" and "L' \<equiv> layers (backpropagate net ts ps)"
  assumes "L \<noteq> []"
  shows "(\<forall>i j. 0 < i \<and> i < length L \<and> j < numNeurons (L ! i) \<longrightarrow>
            (\<forall>k<numNeurons (L ! (i - 1)).
               weights (L' ! i) ! j ! k =
                 num_at (weights (L ! i) ! j) k
                 + learningRate net * gradients (L' ! i) ! j * num_at (activations (L ! (i - 1))) k)
            \<and> biases (L' ! i) ! j = num_at (biases (L ! i)) j + learningRate net * gradients (L' ! i) ! j)
       \<and> L' ! 0 = L ! 0
       \<and> length L' = length L
       \<and> (\<forall>i<length L. activations (L' ! i) = activations (L ! i))"
proof (intro conjI allI impI)
  have L': "L' = backpropagate_layers (learningRate net) ts ps L"
    by (simp add: L'_def L_def backpropagate_def)
  show len: "length L' = length L"
    by (simp add: L' length_backpropagate_layers)
  show first: "L' ! 0 = L ! 0"
    by (simp add: L' backpropagate_layers_first)
  have layer: "L' ! c = update_layer (learningRate net) (layer_gradients ts ps L L' c) (L ! (c - 1)) (L ! c)"
    if "0 < c" "c < length L" for c
    using backpropagate_layers_result [OF that] by (simp add: L')
  {
    fix i assume "i < length L"
    then show "activations (L' ! i) = activations (L ! i)"
      using layer [of i] first by (cases "i = 0") simp_all
  next
    fix i j assume h: "0 < i \<and> i < length L \<and> j < numNeurons (L ! i)"
    define g where "g = layer_gradients ts ps L L' i"
    have upd: "L' ! i = update_layer (learningRate net) g (L ! (i - 1)) (L ! i)"
      using layer h by (simp add: g_def)
    have glen: "length g = numNeurons (L ! i)"
      by (simp add: g_def layer_gradients_def output_gradients_def hidden_gradients_def)
    have gj: "num_at g j = gradients (L' ! i) ! j"
      using h glen upd by (simp add: num_at_nth)
    show "biases (L' ! i) ! j = num_at (biases (L ! i)) j + learningRate net * gradients (L' ! i) ! j"
      using h upd gj by (simp add: update_layer_def nth_append)
    fix k assume k: "k < numNeurons (L ! (i - 1))"
    show "weights (L' ! i) ! j ! k =
            num_at (weights (L ! i) ! j) k
            + learningRate net * gradients (L' ! i) ! j * num_at (activations (L ! (i - 1))) k"
      using h k upd gj by (simp add: update_layer_def update_row_def nth_append)
  }
qed

lemmas js_arith = zero_jsnum_def one_jsnum_def minus_jsnum_def

lemma demo_backprop:
  "layers (backpropagate demo_net [Num 3] [Num 4]) =
         [\<lparr> numNeurons = 2, numInputs = 2, weights = [[Num 1, Num 0], [Num 0, Num 1]],
             biases = [Num 0, Num 0], activations = [Num 1, Num 1], gradients = [] \<rparr>,
          \<lparr> numNeurons = 2, numInputs = 2, weights = [[Num (-599), Num (-599)], [Num 1, Num (-1)]],
             biases = [Num (-600), Num 1], activations = [Num 2, Num 1], gradients = [Num (-600), Num 0] \<rparr>,
          \<lparr> numNeurons = 1, numInputs = 2, weights = [[Num 25, Num 14]],
             biases = [Num 12], activations = [Num 4], gradients = [Num 12] \<rparr>]"
  by (simp add: backpropagate_def backpropagate_layers_def demo_net_def eval_nat_numeral Let_def
        output_gradients_def hidden_gradients_def update_layer_def update_row_def num_at_def js_arith upt_rec)

lemma demo_layers:
  "length (layers demo_net) = 3"
  "last (layers demo_net) = layers demo_net ! 2"
  "numNeurons (layers demo_net ! 2) = 1"
  "numNeurons (layers demo_net ! 1) = 2"
  "numNeurons (layers demo_net ! 0) = 2"
  "activations (layers demo_net ! 2) = [Num 4]"
  "activations (layers demo_net ! 1) = [Num 2, Num 1]"
  "activations (layers demo_net ! 0) = [Num 1, Num 1]"
  "learningRate demo_net = Num 1"
  by (simp_all add: demo_net_def)

theorem backpropagate_gradients_witness:
  "2 \<le> length (layers demo_net) \<and>
   gradients (last (layers (backpropagate demo_net [Num 3] [Num 4]))) ! 0 = Num 12 \<and>
   gradients (layers (backpropagate demo_net [Num 3] [Num 4]) ! 1) ! 0 = Num (- 600) \<and>
   layers (backpropagate (demo_net\<lparr>activationFunction := (\<lambda>x. x)\<rparr>) [Num 3] [Num 4])
     = layers (backpropagate demo_net [Num 3] [Num 4])"
proof -
  have h: "2 \<le> length (layers demo_net)"
    by (simp add: demo_layers)
  note t = backpropagate_gradients [OF h, of "[Num 3]" "[Num 4]"]
  have a: "gradients (last (layers (backpropagate demo_net [Num 3] [Num 4]))) ! 0 = Num 12"
    using t [THEN conjunct1, rule_format, of 0]
    by (simp add: demo_layers num_at_def js_arith)
  have b: "gradients (layers (backpropagate demo_net [Num 3] [Num 4]) ! 1) ! 0 = Num (- 600)"
    using t [THEN conjunct2, THEN conjunct1, rule_format, of 1 0]
    by (simp add: demo_layers demo_backprop num_at_def js_arith upt_rec)
  from h a b t [THEN conjunct2, THEN conjunct2, rule_format, of "\<lambda>x. x"] show ?thesis
    by simp
qed

theorem backpropagate_updates_witness:
  "layers demo_net \<noteq> [] \<and>
   weights (layers (backpropagate demo_net [Num 3] [Num 4]) ! 2) ! 0 ! 1 = Num 2 + Num 1 * Num 12 * Num 1 \<and>
   biases (layers (backpropagate demo_net [Num 3] [Num 4]) ! 2) ! 0 = Num 0 + Num 1 * Num 12 \<and>
   layers (backpropagate demo_net [Num 3] [Num 4]) ! 0 = layers demo_net ! 0"
proof -
  have h: "layers demo_net \<noteq> []"
    by (simp add: demo_net_def)
  note t = backpropagate_updates [OF h, of "[Num 3]" "[Num 4]"]
  have g: "gradients (layers (backpropagate demo_net [Num 3] [Num 4]) ! 2) ! 0 = Num 12"
    by (simp add: demo_backprop)
  have pre: "0 < (2::nat) \<and> 2 < length (layers demo_net) \<and> 0 < numNeurons (layers demo_net ! 2)"
    by (simp add: demo_layers)
  from t [THEN conjunct1, rule_format, OF pre]
  have wb: "(\<forall>k<numNeurons (layers demo_net ! (2 - 1)).
              weights (layers (backpropagate demo_net [Num 3] [Num 4]) ! 2) ! 0 ! k =
                num_at (weights (layers demo_net ! 2) ! 0) k
                + learningRate demo_net * gradients (layers (backpropagate demo_net [Num 3] [Num 4]) ! 2) ! 0
                  * num_at (activations (layers demo_net ! (2 - 1))) k)
            \<and> biases (layers (backpropagate demo_net [Num 3] [Num 4]) ! 2) ! 0 =
                num_at (biases (layers demo_net ! 2)) 0
                + learningRate demo_net * gradients (layers (backpropagate demo_net [Num 3] [Num 4]) ! 2) ! 0" .
  have w: "weights (layers (backpropagate demo_net [Num 3] [Num 4]) ! 2) ! 0 ! 1 = Num 2 + Num 1 * Num 12 * Num 1"
    using wb [THEN conjunct1, rule_format, of 1] g
    by (simp add: demo_net_def num_at_def)
  have b: "biases (layers (backpropagate demo_net [Num 3] [Num 4]) ! 2) ! 0 = Num 0 + Num 1 * Num 12"
    using wb [THEN conjunct2] g
    by (simp add: demo_net_def num_at_def)
  from h w b t [THEN conjunct2, THEN conjunct1] show ?thesis
    by simp
qed

section \<open>Properties of training\<close>

declare train_samples.simps [simp del] train_epochs.simps [simp del]

lemma foldl_epoch_step_Inl: "foldl epoch_step (Inl e) xs = Inl e"
  by (induction xs) (simp_all add: epoch_step_def)

lemma epoch_step_Inr:
  "epoch_step (Inr (t, net)) s =
     (case train_sample net s of Inl e \<Rightarrow> Inl e | Inr (loss, net') \<Rightarrow> Inr (t + loss, net'))"
  by (simp add: epoch_step_def)

lemma train_samples_fold:
  "train_samples net td i totalLoss = foldl epoch_step (Inr (totalLoss, net)) (drop i td)"
proof (induction net td i totalLoss rule: train_samples.induct)
  case (1 net td i totalLoss)
  show ?case
  proof (cases "i < length td")
    case False
    then show ?thesis by (simp add: train_samples.simps)
  next
    case True
    then have d: "drop i td = td ! i # drop (i + 1) td"
      by (simp add: Cons_nth_drop_Suc)
    show ?thesis
    proof (cases "train_sample net (td ! i)")
      case (Inl e)
      with True d show ?thesis
        by (simp add: train_samples.simps [of net td i] epoch_step_Inr foldl_epoch_step_Inl)
    next
      case (Inr r)
      obtain loss net' where r: "r = (loss, net')" by (cases r)
      from "1.IH" [OF True Inr r [symmetric]] True d Inr r show ?thesis
        by (simp add: train_samples.simps [of net td i] epoch_step_Inr)
    qed
  qed
qed

lemma train_samples_run_epoch: "train_samples net td 0 0 = run_epoch net td"
  by (simp add: train_samples_fold run_epoch_def)

lemma train_epochs_run_epochs:
  "train_epochs cb td epochs it net = run_epochs cb td [it..<epochs + 1] net"
proof (induction cb td epochs it net rule: train_epochs.induct)
  case (1 cb td epochs it net)
  show ?case
  proof (cases "it \<le> epochs")
    case False
    then show ?thesis by (simp add: train_epochs.simps)
  next
    case True
    then have u: "[it..<epochs + 1] = it # [it + 1..<epochs + 1]"
      by (simp add: upt_conv_Cons)
    show ?thesis
    proof (cases "run_epoch net td")
      case (Inl e)
      with True u show ?thesis
        by (simp add: train_epochs.simps [of cb td epochs it] train_samples_run_epoch)
    next
      case (Inr r)
      obtain totalLoss net' where r: "r = (totalLoss, net')" by (cases r)
      show ?thesis
      proof (cases "cb it (totalLoss / Num (real (length td)))")
        case stop: True
        with True u Inr r show ?thesis
          by (simp add: train_epochs.simps [of cb td epochs it] train_samples_run_epoch)
      next
        case go: False
        have "train_epochs cb td epochs (it + 1) net' = run_epochs cb td [it + 1..<epochs + 1] net'"
          using "1.IH" [OF True _ _ refl refl] Inr r go
          by (simp add: train_samples_run_epoch)
        with True u Inr r go show ?thesis
          by (simp add: train_epochs.simps [of cb td epochs it] train_samples_run_epoch)
      qed
    qed
  qed
qed

lemma train_train_spec: "train net td epochs callback = train_spec net td epochs callback"
  by (simp add: train_def train_spec_def on_epoch_def train_epochs_run_epochs)

lemma run_epochs_calls:
  assumes "run_epochs cb td es net = Inr (net', calls)"
  shows "map fst calls = take (length calls) es \<and> length calls \<le> length es
       \<and> (\<forall>c\<in>set (butlast calls). \<not> cb (fst c) (snd c))
       \<and> (length calls < length es \<longrightarrow> calls \<noteq> [] \<and> cb (fst (last calls)) (snd (last calls)))"
  using assms
proof (induction es arbitrary: net net' calls)
  case Nil
  then show ?case by simp
next
  case (Cons e es)
  from Cons.prems obtain totalLoss net1 where ep: "run_epoch net td = Inr (totalLoss, net1)"
    by (cases "run_epoch net td") auto
  define m where "m = totalLoss / Num (real (length td))"
  show ?case
  proof (cases "cb e m")
    case True
    with Cons.prems ep have "calls = [(e, m)]"
      by (simp add: m_def Let_def)
    with True show ?thesis by simp
  next
    case False
    with Cons.prems ep obtain rest where
      rec: "run_epochs cb td es net1 = Inr (net', rest)" and calls: "calls = (e, m) # rest"
      by (cases "run_epochs cb td es net1") (auto simp add: m_def Let_def)
    from Cons.IH [OF rec] False calls show ?thesis
      by (cases rest) auto
  qed
qed

lemma run_epochs_never_stop:
  assumes "run_epochs (\<lambda>e m. False) td es net = Inr (net', calls)"
  shows "length calls = length es"
  using assms
proof (induction es arbitrary: net net' calls)
  case Nil
  then show ?case by simp
next
  case (Cons e es)
  from Cons.prems obtain totalLoss net1 where ep: "run_epoch net td = Inr (totalLoss, net1)"
    by (cases "run_epoch net td") auto
  with Cons.prems obtain rest where
    rec: "run_epochs (\<lambda>e m. False) td es net1 = Inr (net', rest)" and calls: "calls = (e, totalLoss / Num (real (length td))) # rest"
    by (cases "run_epochs (\<lambda>e m. False) td es net1") (auto simp add: Let_def)
  from Cons.IH [OF rec] calls show ?case by simp
qed

text \<open>
  C4. \<open>train\<close> is the training loop of the specification: epochs numbered from 1, each
  one over all samples in order (predict, loss, backpropagation, the loss summed), then
  the callback on the epoch number and the mean loss. With 0 epochs it returns the
  network as it is and calls nothing. The calls made are numbered 1, 2, ... without a
  gap and are at most \<open>epochs\<close>; every call but the last returned a falsy value; when
  fewer than \<open>epochs\<close> calls were made the last one returned a truthy value; and
  without a callback all \<open>epochs\<close> epochs run. (\<open>on_epoch callback\<close> is the callback, or the
  function that returns nothing when it is omitted.)
\<close>

theorem train_epochs_and_callback:
  "train net td epochs callback = train_spec net td epochs callback
   \<and> train net td 0 callback = Inr (net, [])
   \<and> (\<forall>net' calls. train net td epochs callback = Inr (net', calls) \<longrightarrow>
         map fst calls = [1..<length calls + 1] \<and> length calls \<le> epochs
         \<and> (\<forall>c\<in>set (butlast calls). \<not> on_epoch callback (fst c) (snd c))
         \<and> (length calls < epochs \<longrightarrow> calls \<noteq> [] \<and> on_epoch callback (fst (last calls)) (snd (last calls)))
         \<and> (callback = None \<longrightarrow> length calls = epochs))"
proof (intro conjI allI impI)
  show "train net td epochs callback = train_spec net td epochs callback"
    by (rule train_train_spec)
  show "train net td 0 callback = Inr (net, [])"
    by (simp add: train_train_spec train_spec_def)
next
  fix net' calls
  assume "train net td epochs callback = Inr (net', calls)"
  then have run: "run_epochs (on_epoch callback) td [1..<epochs + 1] net = Inr (net', calls)"
    by (simp add: train_train_spec train_spec_def)
  have L: "length [1..<epochs + 1] = epochs"
    by simp
  note c = run_epochs_calls [OF run, unfolded L]
  from c show len: "length calls \<le> epochs" by blast
  have "take (length calls) [1..<epochs + 1] = [1..<length calls + 1]"
    using len by (simp add: take_upt del: upt_Suc)
  with c show "map fst calls = [1..<length calls + 1]"
    by presburger
  from c show "\<forall>c\<in>set (butlast calls). \<not> on_epoch callback (fst c) (snd c)" by blast
  {
    assume "length calls < epochs"
    with c show "calls \<noteq> []" and "on_epoch callback (fst (last calls)) (snd (last calls))"
      by blast+
  }
  {
    assume "callback = None"
    with run have "run_epochs (\<lambda>e m. False) td [1..<epochs + 1] net = Inr (net', calls)"
      by (simp add: on_epoch_def)
    from run_epochs_never_stop [OF this, unfolded L] show "length calls = epochs" .
  }
qed

lemma activate_Inl: "activate l xs f = Inl e \<Longrightarrow> e = DimensionMismatch"
  by (simp add: activate_def Let_def split: if_splits)

lemma activate_Inl_iff: "activate l xs f = Inl DimensionMismatch \<longleftrightarrow> length xs \<noteq> numInputs l"
  by (simp add: activate_def Let_def)

lemma activate_Inr_iff: "(\<exists>r. activate l xs f = Inr r) \<longleftrightarrow> length xs = numInputs l"
  by (simp add: activate_def Let_def)

lemma activate_numInputs: "activate l xs f = Inr (out, l') \<Longrightarrow> numInputs l' = numInputs l"
  by (auto simp add: activate_def Let_def split: if_splits)

lemma predict_layers_Inl: "predict_layers f ls xs = Inl e \<Longrightarrow> e = DimensionMismatch"
proof (induction ls arbitrary: xs)
  case Nil
  then show ?case by simp
next
  case (Cons l ls)
  then show ?case
    by (auto split: sum.splits prod.splits dest: activate_Inl)
qed

lemma predict_layers_first_mismatch:
  "ls \<noteq> [] \<Longrightarrow> length xs \<noteq> numInputs (hd ls) \<Longrightarrow> predict_layers f ls xs = Inl DimensionMismatch"
  by (cases ls) (simp_all add: activate_def)

lemma predict_layers_first:
  "predict_layers f ls xs = Inr (out, ls') \<Longrightarrow> ls \<noteq> [] \<Longrightarrow>
   ls' \<noteq> [] \<and> numInputs (hd ls') = numInputs (hd ls)"
  by (cases ls) (auto split: sum.splits prod.splits dest: activate_numInputs)

lemma backpropagate_layers_hd:
  "ls \<noteq> [] \<Longrightarrow> backpropagate_layers rate ts ps ls \<noteq> [] \<and> hd (backpropagate_layers rate ts ps ls) = hd ls"
proof -
  assume ne: "ls \<noteq> []"
  have len: "length (backpropagate_layers rate ts ps ls) = length ls"
    by (rule length_backpropagate_layers)
  with ne have ne': "backpropagate_layers rate ts ps ls \<noteq> []" by auto
  with ne show ?thesis
    by (simp add: hd_conv_nth backpropagate_layers_first)
qed

lemma train_sample_Inl: "train_sample net s = Inl e \<Longrightarrow> e = DimensionMismatch"
  by (auto simp add: train_sample_def predict_def split: sum.splits prod.splits dest: predict_layers_Inl)

lemma train_sample_mismatch:
  "layers net \<noteq> [] \<Longrightarrow> length (inputs s) \<noteq> numInputs (hd (layers net)) \<Longrightarrow>
   train_sample net s = Inl DimensionMismatch"
  by (simp add: train_sample_def predict_def predict_layers_first_mismatch)

lemma train_sample_first:
  assumes "train_sample net s = Inr (loss, net')" and "layers net \<noteq> []"
  shows "layers net' \<noteq> [] \<and> numInputs (hd (layers net')) = numInputs (hd (layers net))"
proof -
  from assms(1) obtain out ls where
    p: "predict_layers (activationFunction net) (layers net) (inputs s) = Inr (out, ls)" and
    n: "layers net' = backpropagate_layers (learningRate net) (targets s) out ls"
    by (auto simp add: train_sample_def predict_def backpropagate_def split: sum.splits prod.splits)
  from predict_layers_first [OF p assms(2)] have "ls \<noteq> []" "numInputs (hd ls) = numInputs (hd (layers net))"
    by simp_all
  with backpropagate_layers_hd [of ls] n show ?thesis by simp
qed

lemma run_epoch_mismatch:
  assumes "layers net \<noteq> []" and "\<exists>s\<in>set td. length (inputs s) \<noteq> numInputs (hd (layers net))"
  shows "foldl epoch_step (Inr (t, net)) td = Inl DimensionMismatch"
  using assms
proof (induction td arbitrary: t net)
  case Nil
  then show ?case by simp
next
  case (Cons s td)
  show ?case
  proof (cases "train_sample net s")
    case (Inl e)
    then show ?thesis
      using train_sample_Inl [OF Inl] by (simp add: epoch_step_Inr foldl_epoch_step_Inl)
  next
    case (Inr r)
    obtain loss net' where r: "r = (loss, net')" by (cases r)
    from Inr r train_sample_mismatch [OF Cons.prems(1), of s]
    have ok: "length (inputs s) = numInputs (hd (layers net))" by auto
    from train_sample_first [OF Inr [unfolded r] Cons.prems(1)]
    have keep: "layers net' \<noteq> []" "numInputs (hd (layers net')) = numInputs (hd (layers net))"
      by simp_all
    from Cons.prems(2) ok keep
    have "\<exists>s\<in>set td. length (inputs s) \<noteq> numInputs (hd (layers net'))" by auto
    from Cons.IH [OF keep(1) this] Inr r show ?thesis
      by (simp add: epoch_step_Inr)
  qed
qed

text \<open>
  C6. \<open>activate\<close> fails, with the dimension mismatch error, exactly when the length of the
  input differs from the layer's input count, and returns otherwise. The error leaves
  \<open>train\<close>: with at least one epoch and at least one layer, a training set holding a
  sample whose input length differs from the first layer's input count makes \<open>train\<close>
  end in that error, whatever the other samples are.
\<close>

theorem dimension_mismatch_aborts:
  "(activate l xs f = Inl DimensionMismatch \<longleftrightarrow> length xs \<noteq> numInputs l)
   \<and> ((\<exists>r. activate l xs f = Inr r) \<longleftrightarrow> length xs = numInputs l)
   \<and> (layers net \<noteq> [] \<and> 1 \<le> epochs
        \<and> (\<exists>s\<in>set td. length (inputs s) \<noteq> numInputs (hd (layers net)))
      \<longrightarrow> train net td epochs callback = Inl DimensionMismatch)"
proof (intro conjI impI)
  show "activate l xs f = Inl DimensionMismatch \<longleftrightarrow> length xs \<noteq> numInputs l"
    by (rule activate_Inl_iff)
  show "(\<exists>r. activate l xs f = Inr r) \<longleftrightarrow> length xs = numInputs l"
    by (rule activate_Inr_iff)
next
  assume h: "layers net \<noteq> [] \<and> 1 \<le> epochs
        \<and> (\<exists>s\<in>set td. length (inputs s) \<noteq> numInputs (hd (layers net)))"
  then have ep: "run_epoch net td = Inl DimensionMismatch"
    by (simp add: run_epoch_def run_epoch_mismatch)
  from h have "[1..<epochs + 1] = 1 # [Suc 1..<epochs + 1]"
    by (simp add: upt_conv_Cons del: upt_Suc)
  with ep show "train net td epochs callback = Inl DimensionMismatch"
    by (simp add: train_train_spec train_spec_def del: upt_Suc)
qed

lemmas mlp_eval = train_spec_def on_epoch_def run_epoch_def epoch_step_def train_sample_def predict_def
  computeError_def backpropagate_def backpropagate_layers_def activate_def weighted_sum_def
  output_gradients_def hidden_gradients_def update_layer_def update_row_def num_at_def
  reLU_def mse_def Let_def js_arith upt_rec

lemma tiny_run:
  "train_spec tiny_net [tiny_sample] 2 None
     = Inr (tiny_net\<lparr>layers := tiny_layers (Num 255) (Num 127) (Num 7) (Num 252)\<rparr>,
            [(1, Num 1), (2, Num 36)])"
  by (simp add: tiny_net_def tiny_sample_def tiny_layers_def mlp_eval)

lemma tiny_run_stop:
  "train_spec tiny_net [tiny_sample] 2 (Some (\<lambda>e m. True))
     = Inr (tiny_net\<lparr>layers := tiny_layers (Num 3) (Num 1) (Num 2) (Num 2)\<rparr>, [(1, Num 1)])"
  by (simp add: tiny_net_def tiny_sample_def tiny_layers_def mlp_eval)

theorem train_epochs_and_callback_witness:
  "train tiny_net [tiny_sample] 2 None
     = Inr (tiny_net\<lparr>layers := tiny_layers (Num 255) (Num 127) (Num 7) (Num 252)\<rparr>,
            [(1, Num 1), (2, Num 36)])
   \<and> train tiny_net [tiny_sample] 2 (Some (\<lambda>e m. True))
     = Inr (tiny_net\<lparr>layers := tiny_layers (Num 3) (Num 1) (Num 2) (Num 2)\<rparr>, [(1, Num 1)])
   \<and> length [(1::nat, Num 1)] < 2
   \<and> on_epoch (Some (\<lambda>e m. True)) (fst (last [(1::nat, Num 1)])) (snd (last [(1::nat, Num 1)]))
   \<and> train tiny_net [tiny_sample] 0 None = Inr (tiny_net, [])"
proof -
  note a = train_epochs_and_callback [of tiny_net "[tiny_sample]" 2 None]
  note b = train_epochs_and_callback [of tiny_net "[tiny_sample]" 2 "Some (\<lambda>e m. True)"]
  have ra: "train tiny_net [tiny_sample] 2 None
     = Inr (tiny_net\<lparr>layers := tiny_layers (Num 255) (Num 127) (Num 7) (Num 252)\<rparr>,
            [(1, Num 1), (2, Num 36)])"
    using a [THEN conjunct1] tiny_run by simp
  have rb: "train tiny_net [tiny_sample] 2 (Some (\<lambda>e m. True))
     = Inr (tiny_net\<lparr>layers := tiny_layers (Num 3) (Num 1) (Num 2) (Num 2)\<rparr>, [(1, Num 1)])"
    using b [THEN conjunct1] tiny_run_stop by simp
  from b [THEN conjunct2, THEN conjunct2, rule_format, OF rb]
  have "on_epoch (Some (\<lambda>e m. True)) (fst (last [(1::nat, Num 1)])) (snd (last [(1::nat, Num 1)]))"
    by simp
  with ra rb train_epochs_and_callback [of tiny_net "[tiny_sample]" 0 None, THEN conjunct2, THEN conjunct1]
  show ?thesis by simp
qed

theorem dimension_mismatch_aborts_witness:
  "layers tiny_net \<noteq> [] \<and> (1::nat) \<le> 2
   \<and> (\<exists>s\<in>set [tiny_sample, bad_sample]. length (inputs s) \<noteq> numInputs (hd (layers tiny_net)))
   \<and> train tiny_net [tiny_sample, bad_sample] 2 None = Inl DimensionMismatch
   \<and> activate demo_layer [Num 1] reLU = Inl DimensionMismatch
   \<and> length [Num 1] \<noteq> numInputs demo_layer"
proof -
  have h: "layers tiny_net \<noteq> [] \<and> (1::nat) \<le> 2
   \<and> (\<exists>s\<in>set [tiny_sample, bad_sample]. length (inputs s) \<noteq> numInputs (hd (layers tiny_net)))"
    by (simp add: tiny_net_def tiny_sample_def bad_sample_def)
  have m: "length [Num 1] \<noteq> numInputs demo_layer"
    by (simp add: demo_layer_def)
  note t = dimension_mismatch_aborts [of demo_layer "[Num 1]" reLU tiny_net 2 "[tiny_sample, bad_sample]" None]
  from t [THEN conjunct2, THEN conjunct2, rule_format, OF h] t [THEN conjunct1] h m
  show ?thesis by simp
qed

section \<open>Properties of the neighbour search\<close>

lemma nearestPoints_empty: "nearestPoints q [] kk metric = []"
  by (simp add: nearestPoints_def Array_sort_def slice0_def)

text \<open>
  C8. On a classifier with no stored training point, normalization off and the
  regression flag off, \<open>predict\<close> raises nothing: the neighbour search returns no
  neighbour, and the result is the object with \<open>predictedLabel\<close> undefined and
  \<open>maxVotes\<close> 0.
\<close>

theorem predict_without_training_data:
  assumes "trainingFeatures st = []" and "\<not> normalization st" and "\<not> regression st"
  shows "KNN_predict st feature = Inr \<lparr> predictedLabel = None, maxVotes = 0 \<rparr>
       \<and> findNearestNeighbors st feature = []"
  using assms
  by (simp add: KNN_predict_def query_point_def findNearestNeighbors_def nearestPoints_empty getVotes_def)

theorem predict_without_training_data_witness:
  "trainingFeatures (new_KNNClassifier 3 :: string KNNClassifier) = []
   \<and> \<not> normalization (new_KNNClassifier 3 :: string KNNClassifier)
   \<and> \<not> regression (new_KNNClassifier 3 :: string KNNClassifier)
   \<and> KNN_predict (new_KNNClassifier 3) [Num 1, Num 2] = Inr \<lparr> predictedLabel = None, maxVotes = 0 \<rparr>
   \<and> findNearestNeighbors (new_KNNClassifier 3 :: string KNNClassifier) [Num 1, Num 2] = []"
proof -
  have a: "trainingFeatures (new_KNNClassifier 3 :: string KNNClassifier) = []"
    and b: "\<not> normalization (new_KNNClassifier 3 :: string KNNClassifier)"
    and c: "\<not> regression (new_KNNClassifier 3 :: string KNNClassifier)"
    by (simp_all add: new_KNNClassifier_def)
  from predict_without_training_data [OF a b c, of "[Num 1, Num 2]"] a b c show ?thesis
    by simp
qed

lemma length_insert_sorted: "length (insert_sorted cmp x ys) = Suc (length ys)"
  by (induction ys) simp_all

lemma mset_insert_sorted: "mset (insert_sorted cmp x ys) = add_mset x (mset ys)"
  by (induction ys) simp_all

lemma mset_Array_sort: "mset (Array_sort cmp xs) = mset xs"
  by (induction xs) (simp_all add: Array_sort_def mset_insert_sorted)

lemma length_Array_sort: "length (Array_sort cmp xs) = length xs"
  using mset_Array_sort [of cmp xs] by (metis size_mset)

lemma set_Array_sort: "set (Array_sort cmp xs) = set xs"
  using mset_Array_sort [of cmp xs] by (metis set_mset_mset)

lemma js_le_trans: "(a::jsnum) \<le> b \<Longrightarrow> b \<le> c \<Longrightarrow> a \<le> c"
  by (cases a; cases b; cases c) (auto simp add: less_eq_jsnum_def)

lemma not_positive_difference: "a \<noteq> NaN \<Longrightarrow> b \<noteq> NaN \<Longrightarrow> \<not> 0 < a - b \<Longrightarrow> a \<le> b"
  by (cases a; cases b) (auto simp add: less_eq_jsnum_def minus_jsnum_def zero_jsnum_def)

lemma positive_difference: "0 < (a::jsnum) - b \<Longrightarrow> b \<le> a"
  by (cases a; cases b) (auto simp add: less_eq_jsnum_def minus_jsnum_def zero_jsnum_def)

lemma sorted_insert_sorted:
  assumes "sorted_wrt (\<lambda>a b. distance a \<le> distance b) ys"
    and "distance x \<noteq> NaN" and "\<forall>y\<in>set ys. distance y \<noteq> NaN"
  shows "sorted_wrt (\<lambda>a b. distance a \<le> distance b) (insert_sorted (\<lambda>a b. distance a - distance b) x ys)"
  using assms
proof (induction ys)
  case Nil
  then show ?case by simp
next
  case (Cons y ys)
  show ?case
  proof (cases "0 < distance x - distance y")
    case True
    then have yx: "distance y \<le> distance x" by (rule positive_difference)
    have "set (insert_sorted (\<lambda>a b. distance a - distance b) x ys) = insert x (set ys)"
      using mset_insert_sorted [of "\<lambda>a b. distance a - distance b" x ys]
      by (metis set_mset_mset set_mset_add_mset_insert)
    with Cons True yx show ?thesis by auto
  next
    case False
    with Cons.prems have xy: "distance x \<le> distance y"
      by (simp add: not_positive_difference)
    with Cons.prems False show ?thesis
      by (auto intro: js_le_trans)
  qed
qed

lemma sorted_Array_sort:
  "\<forall>y\<in>set xs. distance y \<noteq> NaN \<Longrightarrow>
   sorted_wrt (\<lambda>a b. distance a \<le> distance b) (Array_sort (\<lambda>a b. distance a - distance b) xs)"
proof (induction xs)
  case Nil
  then show ?case by (simp add: Array_sort_def)
next
  case (Cons x xs)
  have "Array_sort (\<lambda>a b. distance a - distance b) (x # xs)
          = insert_sorted (\<lambda>a b. distance a - distance b) x (Array_sort (\<lambda>a b. distance a - distance b) xs)"
    by (simp add: Array_sort_def)
  with Cons show ?case
    by (simp add: sorted_insert_sorted set_Array_sort)
qed

lemma slice0_all: "int (length xs) < e \<Longrightarrow> slice0 xs e = xs"
  by (simp add: slice0_def)

text \<open>
  C9, amended. When \<open>k\<close> exceeds the number of points, \<open>nearestPoints\<close> returns one
  entry \<open>{index, point, distance}\<close> for every point and no other (as many entries as
  points, never padded to \<open>k\<close>; their indices a permutation of all indices, each with
  its point and its distance to the query), and the entries ascend by distance whenever
  no distance from the query to a point is NaN. The function has no failing branch.
  Where a distance is NaN the order of the entries is left open.
\<close>

theorem nearestPoints_more_than_available:
  fixes q :: point and points :: "point list" and kk :: int
    and metric :: "(point \<Rightarrow> point \<Rightarrow> jsnum) option"
  defines "d \<equiv> (case metric of Some m \<Rightarrow> m | None \<Rightarrow> euclideanDistance)"
    and "r \<equiv> nearestPoints q points kk metric"
  assumes "int (length points) < kk"
  shows "length r = length points
       \<and> mset (map index r) = mset [0..<length points]
       \<and> (\<forall>e\<in>set r. point e = points ! index e \<and> distance e = d q (points ! index e))
       \<and> ((\<forall>p\<in>set points. d q p \<noteq> NaN) \<longrightarrow> sorted_wrt (\<lambda>a b. distance a \<le> distance b) r)"
proof -
  define E where
    "E = map (\<lambda>i. \<lparr> index = i, point = points ! i, distance = d q (points ! i) \<rparr>) [0..<length points]"
  have r: "r = Array_sort (\<lambda>a b. distance a - distance b) E"
    using assms(3)
    by (simp add: r_def nearestPoints_def E_def d_def slice0_all length_Array_sort)
  have len: "length r = length points"
    by (simp add: r length_Array_sort E_def)
  have "map index E = [0..<length points]"
    by (simp add: E_def o_def)
  moreover have "mset (map index r) = mset (map index E)"
    using mset_Array_sort [of "\<lambda>a b. distance a - distance b" E]
    by (metis r mset_map)
  ultimately have perm: "mset (map index r) = mset [0..<length points]"
    by simp
  have elems: "\<forall>e\<in>set r. point e = points ! index e \<and> distance e = d q (points ! index e)"
    by (auto simp add: r set_Array_sort E_def)
  have srt: "sorted_wrt (\<lambda>a b. distance a \<le> distance b) r" if "\<forall>p\<in>set points. d q p \<noteq> NaN"
  proof -
    from that have "\<forall>y\<in>set E. distance y \<noteq> NaN"
      by (auto simp add: E_def)
    then show ?thesis
      unfolding r by (rule sorted_Array_sort)
  qed
  from len perm elems srt show ?thesis by blast
qed

lemma demo_distances:
  "euclideanDistance [Num 0, Num 0] [Num 3, Num 4] = Num 5"
  "euclideanDistance [Num 0, Num 0] [Num 0, Num 1] = Num 1"
  "euclideanDistance [Num 0, Num 0] [Num 0, Num 2] = Num 2"
  by (simp_all add: euclideanDistance_def pow2_def num_at_def minus_jsnum_def zero_jsnum_def upt_rec
        real_sqrt_unique)

theorem nearestPoints_more_than_available_witness:
  "int (length demo_points) < 5
   \<and> list_all (\<lambda>p. euclideanDistance [Num 0, Num 0] p \<noteq> NaN) demo_points
   \<and> length (nearestPoints [Num 0, Num 0] demo_points 5 None) = length demo_points
   \<and> mset (map index (nearestPoints [Num 0, Num 0] demo_points 5 None)) = mset [0..<length demo_points]
   \<and> sorted_wrt (\<lambda>a b. distance a \<le> distance b) (nearestPoints [Num 0, Num 0] demo_points 5 None)
   \<and> map index (nearestPoints [Num 0, Num 0] demo_points 5 None) = [1, 2, 0]"
proof -
  have h: "int (length demo_points) < 5"
    by (simp add: demo_points_def)
  have n: "\<forall>p\<in>set demo_points.
             (case None of Some m \<Rightarrow> m | None \<Rightarrow> euclideanDistance) [Num 0, Num 0] p \<noteq> NaN"
    by (simp add: demo_points_def demo_distances)
  have v: "map index (nearestPoints [Num 0, Num 0] demo_points 5 None) = [1, 2, 0]"
    by (simp add: nearestPoints_def demo_points_def demo_distances Array_sort_def slice0_def
          minus_jsnum_def zero_jsnum_def upt_rec)
  from nearestPoints_more_than_available [OF h, of "[Num 0, Num 0]" None] n h v show ?thesis
    by (simp add: list_all_iff)
qed

lemma NaN_not_ordered: "\<not> NaN \<le> (x::jsnum)" "\<not> (x::jsnum) \<le> NaN"
  by (cases x; simp add: less_eq_jsnum_def)+

text \<open>
  No arrangement of two or more entries ascends by distance when one of the distances is
  NaN, whatever order a sort leaves them in.
\<close>

lemma no_ascending_order_with_NaN:
  assumes "e \<in> set es" and "distance e = NaN" and "2 \<le> length es"
  shows "\<not> sorted_wrt (\<lambda>a b. distance a \<le> distance b) es"
proof
  assume s: "sorted_wrt (\<lambda>a b. distance a \<le> distance b) es"
  from assms(1) obtain i where i: "i < length es" "es ! i = e"
    by (auto simp add: in_set_conv_nth)
  from assms(3) i(1) obtain j where j: "j < length es" "j \<noteq> i"
    by (cases "i = 0") (auto intro: that [of 0] that [of 1])
  show False
  proof (cases "i < j")
    case True
    with s j(1) have "distance (es ! i) \<le> distance (es ! j)"
      by (simp add: sorted_wrt_iff_nth_less)
    with i(2) assms(2) show False by (simp add: NaN_not_ordered)
  next
    case False
    with j(2) have "j < i" by simp
    with s i(1) have "distance (es ! j) \<le> distance (es ! i)"
      by (simp add: sorted_wrt_iff_nth_less)
    with i(2) assms(2) show False by (simp add: NaN_not_ordered)
  qed
qed

lemma nan_distances:
  "euclideanDistance [Num 0] [Num 1] = Num 1"
  "euclideanDistance [Num 0] [NaN] = NaN"
  "euclideanDistance [Num 0] [Num 0] = Num 0"
  by (simp_all add: euclideanDistance_def pow2_def num_at_def minus_jsnum_def zero_jsnum_def
        upt_rec)

lemma nan_nearest:
  "nearestPoints [Num 0] nan_points 5 None =
     [\<lparr> index = 0, point = [Num 1], distance = Num 1 \<rparr>,
      \<lparr> index = 1, point = [NaN], distance = NaN \<rparr>,
      \<lparr> index = 2, point = [Num 0], distance = Num 0 \<rparr>]"
  by (simp add: nearestPoints_def nan_points_def nan_distances Array_sort_def slice0_def
        minus_jsnum_def zero_jsnum_def upt_rec)

text \<open>
  C9 as stated fails where a distance is NaN. On the stored points \<open>[[1], [NaN], [0]]\<close>
  with query \<open>[0]\<close> and \<open>k = 5\<close> the distances are 1, NaN and 0; the comparator
  \<open>a.distance - b.distance\<close> is NaN, which counts as 0, on both pairs of neighbours in
  the array, so the sort leaves the entries where they are: the result has the distances
  1, NaN, 0, and its last entry is strictly nearer than its first.
\<close>

theorem ascending_distance_counterexample:
  "KNN_train (new_KNNClassifier 5) nan_points [''a'', ''b'', ''c''] = Inr nan_knn
   \<and> trainingFeatures nan_knn = nan_points
   \<and> int (length nan_points) < 5
   \<and> map distance (nearestPoints [Num 0] nan_points 5 None) = [Num 1, NaN, Num 0]
   \<and> distance (nearestPoints [Num 0] nan_points 5 None ! 2)
       < distance (nearestPoints [Num 0] nan_points 5 None ! 0)
   \<and> \<not> sorted_wrt (\<lambda>a b. distance a \<le> distance b) (nearestPoints [Num 0] nan_points 5 None)"
proof -
  have tr: "KNN_train (new_KNNClassifier 5) nan_points [''a'', ''b'', ''c''] = Inr nan_knn"
    by (simp add: KNN_train_def new_KNNClassifier_def nan_knn_def nan_points_def upt_rec)
  have st: "trainingFeatures nan_knn = nan_points"
    by (simp add: nan_knn_def)
  have n: "int (length nan_points) < 5"
    by (simp add: nan_points_def)
  have ds: "map distance (nearestPoints [Num 0] nan_points 5 None) = [Num 1, NaN, Num 0]"
    by (simp add: nan_nearest)
  have inv: "distance (nearestPoints [Num 0] nan_points 5 None ! 2)
               < distance (nearestPoints [Num 0] nan_points 5 None ! 0)"
    by (simp add: nan_nearest)
  have "\<not> sorted_wrt (\<lambda>a b. distance a \<le> distance b) (nearestPoints [Num 0] nan_points 5 None)"
    by (rule no_ascending_order_with_NaN [where e = "\<lparr> index = 1, point = [NaN], distance = NaN \<rparr>"])
       (simp_all add: nan_nearest)
  with tr st n ds inv show ?thesis by blast
qed

section \<open>Properties of normalization\<close>

lemma foldl_js_min_NaN: "foldl js_min NaN xs = NaN"
  by (induction xs) (simp_all add: js_min_def)

lemma foldl_js_max_NaN: "foldl js_max NaN xs = NaN"
  by (induction xs) (simp_all add: js_max_def)

lemma js_min_lower:
  "js_min a x \<noteq> NaN \<Longrightarrow> \<not> js_min a x < Num m \<Longrightarrow>
   a \<noteq> NaN \<and> x \<noteq> NaN \<and> \<not> a < Num m \<and> \<not> x < Num m"
  by (cases a; cases x) (auto simp add: js_min_def split: if_splits)

lemma js_max_upper:
  "js_max a x \<noteq> NaN \<Longrightarrow> \<not> Num m < js_max a x \<Longrightarrow>
   a \<noteq> NaN \<and> x \<noteq> NaN \<and> \<not> Num m < a \<and> \<not> Num m < x"
  by (cases a; cases x) (auto simp add: js_max_def split: if_splits)

lemma foldl_js_min_Num:
  "foldl js_min a xs = Num m \<Longrightarrow>
   a \<noteq> NaN \<and> \<not> a < Num m \<and> (\<forall>x\<in>set xs. x \<noteq> NaN \<and> \<not> x < Num m)"
proof (induction xs arbitrary: a)
  case Nil
  then show ?case by simp
next
  case (Cons x xs)
  then have "foldl js_min (js_min a x) xs = Num m" by simp
  from Cons.IH [OF this]
  have ih: "js_min a x \<noteq> NaN" "\<not> js_min a x < Num m" "\<forall>y\<in>set xs. y \<noteq> NaN \<and> \<not> y < Num m"
    by blast+
  from js_min_lower [OF ih(1,2)] ih(3) show ?case by auto
qed

lemma foldl_js_max_Num:
  "foldl js_max a xs = Num m \<Longrightarrow>
   a \<noteq> NaN \<and> \<not> Num m < a \<and> (\<forall>x\<in>set xs. x \<noteq> NaN \<and> \<not> Num m < x)"
proof (induction xs arbitrary: a)
  case Nil
  then show ?case by simp
next
  case (Cons x xs)
  then have "foldl js_max (js_max a x) xs = Num m" by simp
  from Cons.IH [OF this]
  have ih: "js_max a x \<noteq> NaN" "\<not> Num m < js_max a x" "\<forall>y\<in>set xs. y \<noteq> NaN \<and> \<not> Num m < y"
    by blast+
  from js_max_upper [OF ih(1,2)] ih(3) show ?case by auto
qed

lemma pinned: "x \<noteq> NaN \<Longrightarrow> \<not> x < Num m \<Longrightarrow> \<not> Num m < x \<Longrightarrow> x = Num m"
  by (cases x) auto

lemma constant_column:
  assumes "Math_min xs = Num m" and "Math_max xs = Num m" and "x \<in> set xs"
  shows "x = Num m"
proof -
  from assms(1) have "foldl js_min PInf xs = Num m" by (simp add: Math_min_def)
  from foldl_js_min_Num [OF this] assms(3) have lo: "x \<noteq> NaN" "\<not> x < Num m" by blast+
  from assms(2) have "foldl js_max NInf xs = Num m" by (simp add: Math_max_def)
  from foldl_js_max_Num [OF this] assms(3) have hi: "\<not> Num m < x" by blast
  from lo hi show ?thesis by (rule pinned)
qed

lemma inverseLerp_degenerate:
  assumes "Math_min xs = Math_max xs" and "x \<in> set xs"
  shows "inverseLerp (Math_min xs) (Math_max xs) x = NaN"
proof -
  have fin: "x = Num m" if "Math_min xs = Num m" for m
  proof -
    from that assms(1) have "Math_max xs = Num m" by metis
    from that this assms(2) show ?thesis by (rule constant_column)
  qed
  have "inverseLerp (Math_min xs) (Math_min xs) x = NaN"
  proof (cases "Math_min xs")
    case (Num m)
    with fin have "x = Num m" by blast
    with Num show ?thesis
      by (simp add: inverseLerp_def minus_jsnum_def)
  next
    case PInf
    then show ?thesis
      by (cases x) (simp_all add: inverseLerp_def minus_jsnum_def)
  next
    case NInf
    then show ?thesis
      by (cases x) (simp_all add: inverseLerp_def minus_jsnum_def)
  next
    case NaN
    then show ?thesis
      by (cases x) (simp_all add: inverseLerp_def minus_jsnum_def)
  qed
  with assms(1) show ?thesis by metis
qed

lemma minMaxPoints_uniform:
  assumes "points \<noteq> []" and "\<forall>p\<in>set points. length p = d"
  shows "minMaxPoints points =
           Inr (map (\<lambda>j. (Math_min (map (\<lambda>p. p ! j) points), Math_max (map (\<lambda>p. p ! j) points))) [0..<d])"
proof -
  from assms obtain p0 rest where p: "points = p0 # rest" "length p0 = d"
    by (cases points) auto
  have col: "map (\<lambda>v. num_at v j) points = map (\<lambda>p. p ! j) points" if "j < d" for j
    using assms(2) that by (simp add: num_at_def)
  have "minMaxPoints points =
          Inr (map (\<lambda>i. (Math_min (map (\<lambda>v. num_at v i) points), Math_max (map (\<lambda>v. num_at v i) points)))
                   [0..<d])"
    unfolding minMaxPoints_def p(1) using p(2) by simp
  also have "map (\<lambda>i. (Math_min (map (\<lambda>v. num_at v i) points), Math_max (map (\<lambda>v. num_at v i) points))) [0..<d]
      = map (\<lambda>j. (Math_min (map (\<lambda>p. p ! j) points), Math_max (map (\<lambda>p. p ! j) points))) [0..<d]"
    by (rule map_cong) (simp_all add: col)
  finally show ?thesis .
qed

lemma normalizePoints_uniform:
  assumes "points \<noteq> []" and "\<forall>p\<in>set points. length p = d"
  shows "normalizePoints points None =
           Inr (map (\<lambda>row. map (\<lambda>j. inverseLerp (Math_min (map (\<lambda>p. p ! j) points))
                                               (Math_max (map (\<lambda>p. p ! j) points)) (row ! j))
                               [0..<d]) points)"
proof -
  define mm where
    "mm = map (\<lambda>j. (Math_min (map (\<lambda>p. p ! j) points), Math_max (map (\<lambda>p. p ! j) points))) [0..<d]"
  have mmp: "minMaxPoints points = Inr mm"
    unfolding mm_def using assms by (rule minMaxPoints_uniform)
  have fits: "list_all (\<lambda>row. length row \<le> length mm) points"
    using assms(2) by (simp add: list_all_iff mm_def)
  have rows: "map (\<lambda>j. inverseLerp (fst (mm ! j)) (snd (mm ! j)) (row ! j)) [0..<length row]
      = map (\<lambda>j. inverseLerp (Math_min (map (\<lambda>p. p ! j) points))
                              (Math_max (map (\<lambda>p. p ! j) points)) (row ! j)) [0..<d]"
    if "row \<in> set points" for row
  proof -
    from that assms(2) have "length row = d" by simp
    then show ?thesis
      by (simp add: mm_def)
  qed
  have "normalizePoints points None =
          Inr (map (\<lambda>row. map (\<lambda>j. inverseLerp (fst (mm ! j)) (snd (mm ! j)) (row ! j)) [0..<length row]) points)"
    using mmp fits by (simp add: normalizePoints_def)
  also have "map (\<lambda>row. map (\<lambda>j. inverseLerp (fst (mm ! j)) (snd (mm ! j)) (row ! j)) [0..<length row]) points
      = map (\<lambda>row. map (\<lambda>j. inverseLerp (Math_min (map (\<lambda>p. p ! j) points))
                                         (Math_max (map (\<lambda>p. p ! j) points)) (row ! j)) [0..<d]) points"
    by (rule map_cong) (simp_all add: rows)
  finally show ?thesis .
qed

lemma foldl_plus_NaN: "foldl (\<lambda>carry key. carry + f key) NaN ks = NaN"
  by (induction ks) simp_all

lemma plus_NaN_right: "(a::jsnum) + NaN = NaN"
  by (cases a) simp_all

lemma foldl_plus_hits_NaN:
  "j \<in> set ks \<Longrightarrow> f j = NaN \<Longrightarrow> foldl (\<lambda>carry key. carry + f key) a ks = NaN"
proof (induction ks arbitrary: a)
  case Nil
  then show ?case by simp
next
  case (Cons k ks)
  then show ?case
    by (cases "j = k") (auto simp add: plus_NaN_right foldl_plus_NaN)
qed

lemma euclideanDistance_NaN:
  assumes "j < length q" and "q ! j = NaN"
  shows "euclideanDistance q p = NaN"
proof -
  have "pow2 (num_at q j - num_at p j) = NaN"
    using assms by (simp add: pow2_def num_at_def minus_jsnum_def)
  moreover have "j \<in> set [0..<length q]"
    using assms(1) by simp
  ultimately have "foldl (\<lambda>carry key. carry + pow2 (num_at q key - num_at p key)) 0 [0..<length q] = NaN"
    by (rule foldl_plus_hits_NaN [rotated])
  then show ?thesis
    by (simp add: euclideanDistance_def)
qed

text \<open>
  C10. \<open>normalizePoints\<close> divides by \<open>max - min\<close> unguarded. On a non-empty set of points
  of equal dimension in which coordinate \<open>j\<close> has the same minimum and maximum (as every
  single point has), it raises nothing and returns, for every point, NaN in coordinate
  \<open>j\<close>. A classifier with
  normalization on whose query and stored points form such a set searches with a query
  point that is NaN in coordinate \<open>j\<close>: its Euclidean distance to any point is NaN, so is
  every neighbour's distance under the default metric, and \<open>predict\<close> still returns a
  result.
\<close>

theorem normalizePoints_constant_coordinate:
  fixes points :: "point list"
  assumes "points \<noteq> []" and "\<forall>p\<in>set points. length p = d" and "j < d"
    and "Math_min (map (\<lambda>p. p ! j) points) = Math_max (map (\<lambda>p. p ! j) points)"
  shows "(\<exists>ps. normalizePoints points None = Inr ps \<and> length ps = length points
              \<and> (\<forall>i<length points. length (ps ! i) = d \<and> ps ! i ! j = NaN))
       \<and> (\<forall>(st::string KNNClassifier) feature.
            normalization st \<and> feature # trainingFeatures st = points \<longrightarrow>
            (\<exists>q. query_point st feature = Inr q \<and> length q = d \<and> q ! j = NaN
                 \<and> (\<forall>p. euclideanDistance q p = NaN)
                 \<and> (\<exists>r. KNN_predict st feature = Inr r)
                 \<and> (distanceMetric st = None \<longrightarrow>
                      (\<forall>n\<in>set (findNearestNeighbors st q). distance n = NaN))))"
proof -
  define ps where
    "ps = map (\<lambda>row. map (\<lambda>c. inverseLerp (Math_min (map (\<lambda>p. p ! c) points))
                                          (Math_max (map (\<lambda>p. p ! c) points)) (row ! c))
                          [0..<d]) points"
  have norm: "normalizePoints points None = Inr ps"
    unfolding ps_def using assms(1,2) by (rule normalizePoints_uniform)
  have len: "length ps = length points"
    by (simp add: ps_def)
  have entry: "length (ps ! i) = d \<and> ps ! i ! j = NaN" if "i < length points" for i
  proof -
    have "points ! i ! j \<in> set (map (\<lambda>p. p ! j) points)"
      using that by auto
    with assms(4) have "inverseLerp (Math_min (map (\<lambda>p. p ! j) points))
                          (Math_max (map (\<lambda>p. p ! j) points)) (points ! i ! j) = NaN"
      by (rule inverseLerp_degenerate)
    with that assms(3) show ?thesis
      by (simp add: ps_def)
  qed
  have knn: "\<exists>q. query_point st feature = Inr q \<and> length q = d \<and> q ! j = NaN
                 \<and> (\<forall>p. euclideanDistance q p = NaN)
                 \<and> (\<exists>r. KNN_predict st feature = Inr r)
                 \<and> (distanceMetric st = None \<longrightarrow>
                      (\<forall>n\<in>set (findNearestNeighbors st q). distance n = NaN))"
    if h: "normalization st \<and> feature # trainingFeatures st = points"
    for st :: "string KNNClassifier" and feature
  proof -
    have q: "query_point st feature = Inr (ps ! 0)"
      using h norm by (simp add: query_point_def)
    from assms(1) have "0 < length points" by simp
    from entry [OF this] have q0: "length (ps ! 0) = d" "ps ! 0 ! j = NaN"
      by simp_all
    with assms(3) have dist: "euclideanDistance (ps ! 0) p = NaN" for p
      by (simp add: euclideanDistance_NaN)
    have res: "\<exists>r. KNN_predict st feature = Inr r"
      by (simp add: KNN_predict_def q)
    have nb: "\<forall>n\<in>set (findNearestNeighbors st (ps ! 0)). distance n = NaN"
      if "distanceMetric st = None"
      using that dist
      by (auto simp add: findNearestNeighbors_def nearestPoints_def slice0_def set_Array_sort
            dest!: in_set_takeD)
    from q q0 dist res nb show ?thesis
      by (intro exI [of _ "ps ! 0"]) simp
  qed
  from norm len entry knn show ?thesis by blast
qed

lemma single_point_column: "Math_min [x] = Math_max [x]"
  by (cases x) (simp_all add: Math_min_def Math_max_def js_min_def js_max_def)

lemma demo_knn_column:
  "Math_min (map (\<lambda>p. p ! 0) [[Num 5, Num 3], [Num 5, Num 1]])
     = Math_max (map (\<lambda>p. p ! 0) [[Num 5, Num 3], [Num 5, Num 1]])"
  by (simp add: Math_min_def Math_max_def js_min_def js_max_def)

theorem normalizePoints_constant_coordinate_witness:
  "[[Num 5, Num 3], [Num 5, Num 1]] \<noteq> []
   \<and> list_all (\<lambda>p. length p = 2) [[Num 5, Num 3], [Num 5, Num 1]]
   \<and> (0::nat) < 2
   \<and> Math_min (map (\<lambda>p. p ! 0) [[Num 5, Num 3], [Num 5, Num 1]])
       = Math_max (map (\<lambda>p. p ! 0) [[Num 5, Num 3], [Num 5, Num 1]])
   \<and> normalization demo_knn \<and> [Num 5, Num 3] # trainingFeatures demo_knn = [[Num 5, Num 3], [Num 5, Num 1]]
   \<and> (\<exists>ps. normalizePoints [[Num 5, Num 3], [Num 5, Num 1]] None = Inr ps \<and> ps ! 0 ! 0 = NaN \<and> ps ! 1 ! 0 = NaN)
   \<and> query_point demo_knn [Num 5, Num 3] = Inr [NaN, Num 1]
   \<and> (\<exists>q. query_point demo_knn [Num 5, Num 3] = Inr q \<and> q ! 0 = NaN \<and> euclideanDistance q [Num 5, Num 1] = NaN)
   \<and> KNN_predict demo_knn [Num 5, Num 3] = Inr \<lparr> predictedLabel = Some ''A'', maxVotes = 1 \<rparr>
   \<and> (\<exists>ps. normalizePoints [[Num 5, Num 7]] None = Inr ps \<and> ps ! 0 ! 1 = NaN)"
proof -
  have one: "\<exists>ps. normalizePoints [[Num 5, Num 7]] None = Inr ps \<and> ps ! 0 ! 1 = NaN"
  proof -
    have "[[Num 5, Num 7]] \<noteq> ([] :: point list)" "\<forall>p\<in>set [[Num 5, Num 7]]. length p = 2" "(1::nat) < 2"
      "Math_min (map (\<lambda>p. p ! 1) [[Num 5, Num 7]]) = Math_max (map (\<lambda>p. p ! 1) [[Num 5, Num 7]])"
      by (simp_all add: single_point_column)
    from normalizePoints_constant_coordinate [OF this, THEN conjunct1] show ?thesis
      by auto
  qed
  have a: "[[Num 5, Num 3], [Num 5, Num 1]] \<noteq> ([] :: point list)" by simp
  have b: "\<forall>p\<in>set [[Num 5, Num 3], [Num 5, Num 1]]. length p = 2" by simp
  have c: "(0::nat) < 2" by simp
  have st: "normalization demo_knn \<and> [Num 5, Num 3] # trainingFeatures demo_knn = [[Num 5, Num 3], [Num 5, Num 1]]"
    by (simp add: demo_knn_def)
  note t = normalizePoints_constant_coordinate [OF a b c demo_knn_column]
  from t [THEN conjunct1] have n: "\<exists>ps. normalizePoints [[Num 5, Num 3], [Num 5, Num 1]] None = Inr ps
      \<and> ps ! 0 ! 0 = NaN \<and> ps ! 1 ! 0 = NaN"
    by auto
  from t [THEN conjunct2, rule_format, OF st]
  have k: "\<exists>q. query_point demo_knn [Num 5, Num 3] = Inr q \<and> q ! 0 = NaN \<and> euclideanDistance q [Num 5, Num 1] = NaN"
    by blast
  have q: "query_point demo_knn [Num 5, Num 3] = Inr [NaN, Num 1]"
    by (simp add: query_point_def demo_knn_def normalizePoints_def minMaxPoints_def Math_min_def
          Math_max_def js_min_def js_max_def num_at_def inverseLerp_def minus_jsnum_def upt_rec)
  have p: "KNN_predict demo_knn [Num 5, Num 3] = Inr \<lparr> predictedLabel = Some ''A'', maxVotes = 1 \<rparr>"
    by (simp add: KNN_predict_def q)
       (simp add: demo_knn_def findNearestNeighbors_def nearestPoints_def Array_sort_def slice0_def
          getVotes_def add_vote_def label_key_def objectPrototypeKeys_def upt_rec)
  from a b c demo_knn_column st n k q p one show ?thesis
    by (simp add: list_all_iff)
qed

text \<open>
  C7. With normalization on, \<open>predict(feature)\<close> searches with entry 0 of the
  normalization of \<open>[feature] + trainingFeatures\<close>: coordinate \<open>j\<close> of the query is
  \<open>(feature[j] - min) / (max - min)\<close> with the minimum and maximum of coordinate \<open>j\<close> over
  the feature and all stored points. \<open>train\<close> appends the batch normalized with the
  minimum and maximum of the batch alone. The points are of equal dimension.
\<close>

theorem predict_normalizes_with_stored_points:
  fixes st :: "string KNNClassifier"
  assumes "normalization st" and "\<forall>p\<in>set (trainingFeatures st). length p = length feature"
  shows "(\<exists>q. query_point st feature = Inr q \<and> length q = length feature
            \<and> (\<forall>j<length feature.
                  q ! j = (feature ! j - Math_min (map (\<lambda>p. p ! j) (feature # trainingFeatures st)))
                          / (Math_max (map (\<lambda>p. p ! j) (feature # trainingFeatures st))
                             - Math_min (map (\<lambda>p. p ! j) (feature # trainingFeatures st))))
            \<and> KNN_predict st feature =
                Inr (max_votes (getVotes (findNearestNeighbors st q)) \<lparr> predictedLabel = None, maxVotes = 0 \<rparr>))
       \<and> (\<forall>batch labels. batch \<noteq> [] \<and> (\<forall>p\<in>set batch. length p = length (hd batch)) \<longrightarrow>
            (\<exists>nb. KNN_train st batch labels =
                     Inr (st\<lparr> trainingFeatures := trainingFeatures st @ nb,
                              trainingLabels := trainingLabels st
                                @ map (\<lambda>i. if i < length labels then Some (labels ! i) else None)
                                      [0..<length batch] \<rparr>)
                 \<and> length nb = length batch
                 \<and> (\<forall>i<length batch. \<forall>j<length (hd batch).
                       nb ! i ! j = (batch ! i ! j - Math_min (map (\<lambda>p. p ! j) batch))
                                    / (Math_max (map (\<lambda>p. p ! j) batch) - Math_min (map (\<lambda>p. p ! j) batch)))))"
proof (intro conjI allI impI)
  define pts where "pts = feature # trainingFeatures st"
  define ps where
    "ps = map (\<lambda>row. map (\<lambda>c. inverseLerp (Math_min (map (\<lambda>p. p ! c) pts))
                                          (Math_max (map (\<lambda>p. p ! c) pts)) (row ! c))
                          [0..<length feature]) pts"
  have "pts \<noteq> []" "\<forall>p\<in>set pts. length p = length feature"
    using assms(2) by (simp_all add: pts_def)
  then have norm: "normalizePoints pts None = Inr ps"
    unfolding ps_def by (rule normalizePoints_uniform)
  have q: "query_point st feature = Inr (ps ! 0)"
    using assms(1) norm by (simp add: query_point_def pts_def)
  have q0: "ps ! 0 = map (\<lambda>c. inverseLerp (Math_min (map (\<lambda>p. p ! c) pts))
                                          (Math_max (map (\<lambda>p. p ! c) pts)) (feature ! c))
                          [0..<length feature]"
    by (simp add: ps_def pts_def)
  show "\<exists>q. query_point st feature = Inr q \<and> length q = length feature
            \<and> (\<forall>j<length feature.
                  q ! j = (feature ! j - Math_min (map (\<lambda>p. p ! j) (feature # trainingFeatures st)))
                          / (Math_max (map (\<lambda>p. p ! j) (feature # trainingFeatures st))
                             - Math_min (map (\<lambda>p. p ! j) (feature # trainingFeatures st))))
            \<and> KNN_predict st feature =
                Inr (max_votes (getVotes (findNearestNeighbors st q)) \<lparr> predictedLabel = None, maxVotes = 0 \<rparr>)"
  proof (intro exI [of _ "ps ! 0"] conjI allI impI)
    show "query_point st feature = Inr (ps ! 0)" by (rule q)
    show "length (ps ! 0) = length feature" by (simp add: q0)
    show "KNN_predict st feature =
            Inr (max_votes (getVotes (findNearestNeighbors st (ps ! 0))) \<lparr> predictedLabel = None, maxVotes = 0 \<rparr>)"
      by (simp add: KNN_predict_def q)
    fix j assume "j < length feature"
    then have "ps ! 0 ! j = inverseLerp (Math_min (map (\<lambda>p. p ! j) pts))
                              (Math_max (map (\<lambda>p. p ! j) pts)) (feature ! j)"
      by (simp add: q0)
    then show "ps ! 0 ! j = (feature ! j - Math_min (map (\<lambda>p. p ! j) (feature # trainingFeatures st)))
                          / (Math_max (map (\<lambda>p. p ! j) (feature # trainingFeatures st))
                             - Math_min (map (\<lambda>p. p ! j) (feature # trainingFeatures st)))"
      unfolding inverseLerp_def pts_def .
  qed
next
  fix batch :: "point list" and labels :: "string list"
  assume h: "batch \<noteq> [] \<and> (\<forall>p\<in>set batch. length p = length (hd batch))"
  define nb where
    "nb = map (\<lambda>row. map (\<lambda>c. inverseLerp (Math_min (map (\<lambda>p. p ! c) batch))
                                          (Math_max (map (\<lambda>p. p ! c) batch)) (row ! c))
                          [0..<length (hd batch)]) batch"
  from h have "batch \<noteq> []" and "\<forall>p\<in>set batch. length p = length (hd batch)"
    by blast+
  then have norm: "normalizePoints batch None = Inr nb"
    unfolding nb_def by (rule normalizePoints_uniform)
  have len: "length nb = length batch"
    by (simp add: nb_def)
  show "\<exists>nb. KNN_train st batch labels =
                     Inr (st\<lparr> trainingFeatures := trainingFeatures st @ nb,
                              trainingLabels := trainingLabels st
                                @ map (\<lambda>i. if i < length labels then Some (labels ! i) else None)
                                      [0..<length batch] \<rparr>)
                 \<and> length nb = length batch
                 \<and> (\<forall>i<length batch. \<forall>j<length (hd batch).
                       nb ! i ! j = (batch ! i ! j - Math_min (map (\<lambda>p. p ! j) batch))
                                    / (Math_max (map (\<lambda>p. p ! j) batch) - Math_min (map (\<lambda>p. p ! j) batch)))"
  proof (intro exI [of _ nb] conjI allI impI)
    show "KNN_train st batch labels =
            Inr (st\<lparr> trainingFeatures := trainingFeatures st @ nb,
                     trainingLabels := trainingLabels st
                       @ map (\<lambda>i. if i < length labels then Some (labels ! i) else None)
                             [0..<length batch] \<rparr>)"
      using assms(1) norm len by (simp add: KNN_train_def)
    show "length nb = length batch" by (rule len)
    fix i j assume "i < length batch" and "j < length (hd batch)"
    then have "nb ! i ! j = inverseLerp (Math_min (map (\<lambda>p. p ! j) batch))
                              (Math_max (map (\<lambda>p. p ! j) batch)) (batch ! i ! j)"
      by (simp add: nb_def)
    then show "nb ! i ! j = (batch ! i ! j - Math_min (map (\<lambda>p. p ! j) batch))
                            / (Math_max (map (\<lambda>p. p ! j) batch) - Math_min (map (\<lambda>p. p ! j) batch))"
      unfolding inverseLerp_def .
  qed
qed

lemma knn_fresh_train:
  "KNN_train knn_fresh [[Num 0], [Num 10]] [''lo'', ''hi''] = Inr knn_trained"
  by (simp add: KNN_train_def knn_fresh_def knn_trained_def withNormalization_def new_KNNClassifier_def
        normalizePoints_def minMaxPoints_def Math_min_def
        Math_max_def js_min_def js_max_def num_at_def inverseLerp_def minus_jsnum_def upt_rec)

theorem predict_normalizes_with_stored_points_witness:
  "normalization knn_trained
   \<and> list_all (\<lambda>p. length p = length [Num 5]) (trainingFeatures knn_trained)
   \<and> normalization knn_fresh
   \<and> list_all (\<lambda>p. length p = length [Num 5]) (trainingFeatures knn_fresh)
   \<and> [[Num 0], [Num 10]] \<noteq> [] \<and> list_all (\<lambda>p. length p = length (hd [[Num 0], [Num 10]])) [[Num 0], [Num 10]]
   \<and> KNN_train knn_fresh [[Num 0], [Num 10]] [''lo'', ''hi''] = Inr knn_trained
   \<and> query_point knn_trained [Num 5] = Inr [Num 1]
   \<and> (Num 5 - Math_min [Num 0, Num 10]) / (Math_max [Num 0, Num 10] - Math_min [Num 0, Num 10]) = Num (1/2)"
proof -
  have a: "normalization knn_trained" "\<forall>p\<in>set (trainingFeatures knn_trained). length p = length [Num 5]"
    by (simp_all add: knn_trained_def knn_fresh_def withNormalization_def)
  have b: "normalization knn_fresh" "\<forall>p\<in>set (trainingFeatures knn_fresh). length p = length [Num 5]"
    by (simp_all add: knn_fresh_def withNormalization_def new_KNNClassifier_def)
  have c: "[[Num 0], [Num 10]] \<noteq> [] \<and> (\<forall>p\<in>set [[Num 0], [Num 10]]. length p = length (hd [[Num 0], [Num 10]]))"
    by simp
  from predict_normalizes_with_stored_points [OF a, THEN conjunct1]
  obtain q where q: "query_point knn_trained [Num 5] = Inr q" "length q = length [Num 5]"
    "q ! 0 = (Num 5 - Math_min (map (\<lambda>p. p ! 0) ([Num 5] # trainingFeatures knn_trained)))
             / (Math_max (map (\<lambda>p. p ! 0) ([Num 5] # trainingFeatures knn_trained))
                - Math_min (map (\<lambda>p. p ! 0) ([Num 5] # trainingFeatures knn_trained)))"
    by auto
  from q(3) have "q ! 0 = Num 1"
    by (simp add: knn_trained_def Math_min_def Math_max_def js_min_def js_max_def minus_jsnum_def)
  with q(2) have "q = [Num 1]"
    by (cases q) simp_all
  with q(1) have qp: "query_point knn_trained [Num 5] = Inr [Num 1]" by simp
  from predict_normalizes_with_stored_points [OF b, THEN conjunct2, rule_format, OF c, of "[''lo'', ''hi'']"]
  have "\<exists>nb. KNN_train knn_fresh [[Num 0], [Num 10]] [''lo'', ''hi''] =
         Inr (knn_fresh\<lparr> trainingFeatures := trainingFeatures knn_fresh @ nb,
                trainingLabels := trainingLabels knn_fresh
                  @ map (\<lambda>i. if i < length [''lo'', ''hi''] then Some ([''lo'', ''hi''] ! i) else None)
                        [0..<length [[Num 0], [Num 10]]] \<rparr>)"
    by blast
  have basis: "(Num 5 - Math_min [Num 0, Num 10]) / (Math_max [Num 0, Num 10] - Math_min [Num 0, Num 10]) = Num (1/2)"
    by (simp add: Math_min_def Math_max_def js_min_def js_max_def minus_jsnum_def)
  from a b c knn_fresh_train qp basis show ?thesis
    by (simp add: list_all_iff)
qed

section \<open>Properties of the vote\<close>

lemma digit_less: "digit c = Some x \<Longrightarrow> x < 10"
  by (auto simp add: digit_def upt_rec split: if_splits)

lemma digit_inj: "digit c = Some x \<Longrightarrow> digit c' = Some x \<Longrightarrow> c = c'"
  by (auto simp add: digit_def upt_rec split: if_splits)

lemma digit_zero: "digit c = Some 0 \<Longrightarrow> c = CHR ''0''"
  by (auto simp add: digit_def upt_rec split: if_splits)

lemma decimal_bounds:
  "decimal a s = Some n \<Longrightarrow> a * 10 ^ length s \<le> n \<and> n < (a + 1) * 10 ^ length s"
proof (induction s arbitrary: a)
  case Nil
  then show ?case by simp
next
  case (Cons c cs)
  then obtain x where x: "digit c = Some x" and rest: "decimal (10 * a + x) cs = Some n"
    by (auto split: option.splits)
  define P :: nat where "P = 10 ^ length cs"
  from Cons.IH [OF rest] have ih: "(10 * a + x) * P \<le> n" "n < (10 * a + x + 1) * P"
    by (simp_all add: P_def)
  have "a * (10 * P) \<le> (10 * a + x) * P"
    by (simp add: algebra_simps)
  from this ih(1) have lo: "a * (10 * P) \<le> n"
    by (rule order_trans)
  from digit_less [OF x] have "10 * a + x + 1 \<le> 10 * (a + 1)" by simp
  then have "(10 * a + x + 1) * P \<le> (10 * (a + 1)) * P"
    by (rule mult_le_mono1)
  also have "\<dots> = (a + 1) * (10 * P)"
    by (simp add: algebra_simps)
  finally have "n < (a + 1) * (10 * P)"
    using ih(2) by (rule less_le_trans [rotated])
  with lo show ?case
    by (simp add: P_def)
qed

lemma decimal_same_length:
  "decimal a s = Some n \<Longrightarrow> decimal a t = Some n \<Longrightarrow> length s = length t \<Longrightarrow> s = t"
proof (induction s arbitrary: a t)
  case Nil
  then show ?case by simp
next
  case (Cons c cs)
  then obtain d ds where t: "t = d # ds" and len: "length cs = length ds"
    by (cases t) auto
  from Cons.prems(1) obtain x where x: "digit c = Some x" and r1: "decimal (10 * a + x) cs = Some n"
    by (auto split: option.splits)
  from Cons.prems(2) t obtain y where y: "digit d = Some y" and r2: "decimal (10 * a + y) ds = Some n"
    by (auto split: option.splits)
  from decimal_bounds [OF r1] decimal_bounds [OF r2] len
  have b: "(10 * a + x) * 10 ^ length cs < (10 * a + y + 1) * 10 ^ length cs"
    "(10 * a + y) * 10 ^ length cs < (10 * a + x + 1) * 10 ^ length cs"
    by simp_all
  then have "10 * a + x < 10 * a + y + 1" "10 * a + y < 10 * a + x + 1"
    by (simp_all only: mult_less_cancel2)
  then have xy: "x = y" by simp
  with x y have cd: "c = d" by (simp add: digit_inj)
  from Cons.IH [OF r1 r2 [folded xy] len] cd t show ?case by simp
qed

lemma arrayIndex_facts:
  assumes "arrayIndex s = Some n"
  shows "s \<noteq> []" and "decimal 0 s = Some n" and "hd s = CHR ''0'' \<Longrightarrow> s = ''0''"
  using assms by (cases s; auto simp add: arrayIndex_def split: if_splits option.splits)+

lemma decimal_leading:
  assumes "decimal 0 s = Some n" and "s \<noteq> []" and "hd s \<noteq> CHR ''0''"
  shows "10 ^ (length s - 1) \<le> n"
proof -
  from assms(2) obtain c cs where s: "s = c # cs" by (cases s) auto
  with assms(1) obtain x where x: "digit c = Some x" and r: "decimal x cs = Some n"
    by (auto split: option.splits)
  from assms(3) s x have "x \<noteq> 0"
    using digit_zero [of c] by auto
  then have "1 * 10 ^ length cs \<le> x * 10 ^ length cs"
    by (intro mult_le_mono1) simp
  then have "10 ^ length cs \<le> x * 10 ^ length cs" by (simp only: mult_1)
  moreover from decimal_bounds [OF r] have "x * 10 ^ length cs \<le> n" by simp
  ultimately have "10 ^ length cs \<le> n" by (rule order_trans)
  with s show ?thesis by simp
qed

lemma arrayIndex_inj:
  assumes "arrayIndex s = Some n" and "arrayIndex t = Some n"
  shows "s = t"
proof -
  note fs = arrayIndex_facts [OF assms(1)] and ft = arrayIndex_facts [OF assms(2)]
  have zero: "n = 0" if "arrayIndex u = Some n" "hd u = CHR ''0''" for u
    using arrayIndex_facts [OF that(1)] that(2) by (auto simp add: digit_def upt_rec)
  have pos: "0 < n \<and> 10 ^ (length u - 1) \<le> n \<and> n < 10 ^ length u"
    if "arrayIndex u = Some n" "hd u \<noteq> CHR ''0''" for u
  proof -
    from arrayIndex_facts [OF that(1)] have u: "u \<noteq> []" "decimal 0 u = Some n" by simp_all
    have "(0::nat) < 10 ^ (length u - 1)" by simp
    from this decimal_leading [OF u(2,1) that(2)] have "0 < n" by (rule less_le_trans)
    with decimal_leading [OF u(2,1) that(2)] decimal_bounds [OF u(2)] show ?thesis
      by simp
  qed
  show ?thesis
  proof (cases "hd s = CHR ''0''")
    case True
    then have s0: "s = ''0''" by (rule fs(3))
    from zero [OF assms(1) True] have n: "n = 0" .
    have "hd t = CHR ''0''"
    proof (rule ccontr)
      assume "hd t \<noteq> CHR ''0''"
      from pos [OF assms(2) this] n show False by simp
    qed
    then have "t = ''0''" by (rule ft(3))
    with s0 show ?thesis by simp
  next
    case False
    from pos [OF assms(1) False] have ps: "0 < n" "10 ^ (length s - 1) \<le> n" "n < 10 ^ length s"
      by simp_all
    have tn: "hd t \<noteq> CHR ''0''"
    proof
      assume "hd t = CHR ''0''"
      from zero [OF assms(2) this] ps(1) show False by simp
    qed
    from pos [OF assms(2) tn] have pt: "10 ^ (length t - 1) \<le> n" "n < 10 ^ length t"
      by simp_all
    have len: "length s = length t"
    proof (rule ccontr)
      assume ne: "length s \<noteq> length t"
      show False
      proof (cases "length s < length t")
        case True
        then have "(10::nat) ^ length s \<le> 10 ^ (length t - 1)"
          by (intro power_increasing) simp_all
        with ps(3) pt(1) show False by simp
      next
        case False
        with ne have "length t < length s" by simp
        then have "(10::nat) ^ length t \<le> 10 ^ (length s - 1)"
          by (intro power_increasing) simp_all
        with pt(2) ps(2) show False by simp
      qed
    qed
    from decimal_same_length [OF fs(2) ft(2) len] show ?thesis .
  qed
qed

lemma obj_set_Cons:
  "obj_set ((ky, u) # rest) x v =
     (if ky = x then (x, v) # rest
      else if placed_before x ky then (x, v) # (ky, u) # rest
      else (ky, u) # obj_set rest x v)"
  by (simp add: placed_before_def split: option.splits)

declare obj_set.simps(2) [simp del]

lemma visited_before_trans:
  "visited_before ls a b \<Longrightarrow> visited_before ls b c \<Longrightarrow> visited_before ls a c"
  by (auto simp add: visited_before_def split: option.splits)

lemma visited_before_irrefl: "\<not> visited_before ls a a"
  by (simp add: visited_before_def split: option.splits)

lemma visited_before_asym: "visited_before ls a b \<Longrightarrow> \<not> visited_before ls b a"
  using visited_before_trans visited_before_irrefl by blast

lemma placed_before_visited: "placed_before x ky \<Longrightarrow> visited_before ls x ky"
  by (auto simp add: placed_before_def visited_before_def split: option.splits)

lemma visited_placed: "arrayIndex x \<noteq> None \<Longrightarrow> visited_before ls x ky \<Longrightarrow> placed_before x ky"
  by (auto simp add: placed_before_def visited_before_def split: option.splits)

lemma first_pos_append: "a \<in> set ls \<Longrightarrow> first_pos (ls @ xs) a = first_pos ls a"
  by (auto simp add: first_pos_def takeWhile_append)
  
lemma first_pos_less: "a \<in> set ls \<Longrightarrow> first_pos ls a < length ls"
  by (induction ls) (auto simp add: first_pos_def)

lemma first_pos_new: "x \<notin> set ls \<Longrightarrow> first_pos (ls @ [x]) x = length ls"
  by (simp add: first_pos_def takeWhile_append)

lemma nth_first_pos: "a \<in> set ls \<Longrightarrow> ls ! first_pos ls a = a"
  unfolding first_pos_def using nth_length_takeWhile [of "\<lambda>y. y \<noteq> a" ls] first_pos_less [of a ls]
  by (auto simp add: first_pos_def)

lemma visited_before_append:
  "a \<in> set ls \<Longrightarrow> b \<in> set ls \<Longrightarrow> visited_before (ls @ xs) a b = visited_before ls a b"
  by (simp add: visited_before_def first_pos_append split: option.splits)

lemma visited_before_new:
  assumes "x \<notin> set ls" and "a \<in> set ls" and "\<not> placed_before x a"
  shows "visited_before (ls @ [x]) a x"
proof (cases "arrayIndex x")
  case None
  with assms show ?thesis
    by (auto simp add: visited_before_def first_pos_new first_pos_append first_pos_less split: option.splits)
next
  case (Some i)
  with assms(3) obtain i' where a: "arrayIndex a = Some i'" "\<not> i < i'"
    by (auto simp add: placed_before_def split: option.splits)
  have "i' \<noteq> i"
  proof
    assume "i' = i"
    with a Some have "a = x" by (auto intro: arrayIndex_inj)
    with assms(1,2) show False by simp
  qed
  with a Some show ?thesis
    by (simp add: visited_before_def)
qed

lemma set_obj_set: "fst ` set (obj_set vs x v) = insert x (fst ` set vs)"
proof (induction vs)
  case Nil
  then show ?case by simp
next
  case (Cons p vs)
  obtain ky u where p: "p = (ky, u)" by (cases p)
  from Cons.IH show ?case
    unfolding p obj_set_Cons by (simp add: insert_commute)
qed

lemma map_of_obj_set: "map_of (obj_set vs x v) = (map_of vs)(x \<mapsto> v)"
  by (induction vs) (auto simp add: obj_set_Cons)

lemma obj_set_existing:
  assumes "sorted_wrt (visited_before ls) (map fst vs)" and "x \<in> fst ` set vs"
  shows "map fst (obj_set vs x v) = map fst vs"
  using assms
proof (induction vs)
  case Nil
  then show ?case by simp
next
  case (Cons p vs)
  obtain ky u where p: "p = (ky, u)" by (cases p)
  show ?case
  proof (cases "ky = x")
    case True
    with p show ?thesis by (simp add: obj_set_Cons)
  next
    case False
    with Cons.prems p have x: "x \<in> fst ` set vs" by auto
    with Cons.prems(1) p have "visited_before ls ky x" by auto
    then have "\<not> placed_before x ky"
      using placed_before_visited visited_before_asym by blast
    with False p Cons.IH [OF _ x] Cons.prems(1) show ?thesis
      by (simp add: obj_set_Cons)
  qed
qed

lemma obj_set_new:
  assumes "sorted_wrt (visited_before ls) (map fst vs)"
    and "\<forall>ky\<in>fst ` set vs. \<not> placed_before x ky \<longrightarrow> visited_before ls ky x"
  shows "sorted_wrt (visited_before ls) (map fst (obj_set vs x v))"
  using assms
proof (induction vs)
  case Nil
  then show ?case by simp
next
  case (Cons p vs)
  obtain ky u where p: "p = (ky, u)" by (cases p)
  from Cons.prems(1) p have srt: "sorted_wrt (visited_before ls) (map fst vs)"
    and head: "\<forall>ky'\<in>fst ` set vs. visited_before ls ky ky'"
    by auto
  show ?case
  proof (cases "ky = x")
    case True
    with p Cons.prems(1) show ?thesis by (simp add: obj_set_Cons)
  next
    case False
    show ?thesis
    proof (cases "placed_before x ky")
      case True
      then have xk: "visited_before ls x ky" by (rule placed_before_visited)
      with head have "\<forall>ky'\<in>fst ` set vs. visited_before ls x ky'"
        using visited_before_trans by blast
      with xk False True p Cons.prems(1) show ?thesis
        by (simp add: obj_set_Cons)
    next
      case no: False
      with Cons.prems(2) p have kx: "visited_before ls ky x" by simp
      from Cons.prems(2) have "\<forall>ky\<in>fst ` set vs. \<not> placed_before x ky \<longrightarrow> visited_before ls ky x"
        by simp
      from Cons.IH [OF srt this] have "sorted_wrt (visited_before ls) (map fst (obj_set vs x v))" .
      moreover have "\<forall>ky'\<in>set (map fst (obj_set vs x v)). visited_before ls ky ky'"
        using head kx set_obj_set [of vs x v] by auto
      ultimately show ?thesis
        using False no p by (simp add: obj_set_Cons)
    qed
  qed
qed

lemma count_list_snoc: "count_list (xs @ [x]) y = count_list xs y + (if x = y then 1 else 0)"
  by (induction xs) simp_all

lemma add_vote_ok:
  assumes "tally_ok seen vs" and "x \<notin> set objectPrototypeKeys"
  shows "tally_ok (seen @ [x]) (add_vote vs x)"
proof -
  from assms(1) have srt: "sorted_wrt (visited_before seen) (map fst vs)"
    and keys: "fst ` set vs = set seen"
    and vals: "\<And>l. l \<in> set seen \<Longrightarrow> map_of vs l = Some (Count (count_list seen l))"
    by (simp_all add: tally_ok_def list_all_iff)
  define new where "new = Count (count_list (seen @ [x]) x)"
  have np: "x \<noteq> ''__proto__''"
    using assms(2) by (auto simp add: objectPrototypeKeys_def)
  have "map_of vs x = (if x \<in> set seen then Some (Count (count_list seen x)) else None)"
    using vals [of x] keys by (auto simp add: map_of_eq_None_iff)
  then have step: "add_vote vs x = obj_set vs x new"
    using np assms(2) by (auto simp add: add_vote_def new_def count_list_snoc count_list_0_iff)
  have srt': "sorted_wrt (visited_before (seen @ [x])) (map fst vs)"
    using srt keys
    by (rule_tac sorted_wrt_mono_rel [where P = "visited_before seen"])
       (auto simp add: visited_before_append)
  have order: "sorted_wrt (visited_before (seen @ [x])) (map fst (obj_set vs x new))"
  proof (cases "x \<in> set seen")
    case True
    then have "x \<in> fst ` set vs" by (simp add: keys)
    from obj_set_existing [OF srt' this] srt' show ?thesis by simp
  next
    case False
    have "\<forall>ky\<in>fst ` set vs. \<not> placed_before x ky \<longrightarrow> visited_before (seen @ [x]) ky x"
      using False keys by (auto intro: visited_before_new)
    with srt' show ?thesis by (rule obj_set_new)
  qed
  have keys': "fst ` set (obj_set vs x new) = set (seen @ [x])"
    by (simp add: set_obj_set keys)
  have vals': "map_of (obj_set vs x new) l = Some (Count (count_list (seen @ [x]) l))"
    if "l \<in> set (seen @ [x])" for l
    using that vals [of l] by (auto simp add: map_of_obj_set new_def count_list_snoc)
  from order keys' vals' show ?thesis
    unfolding step tally_ok_def list_all_iff by blast
qed

lemma tally_ok_fold:
  "set ls \<inter> set objectPrototypeKeys = {} \<Longrightarrow> tally_ok ls (foldl add_vote [] ls)"
proof (induction ls rule: rev_induct)
  case Nil
  then show ?case by (simp add: tally_ok_def)
next
  case (snoc x xs)
  then have "tally_ok xs (foldl add_vote [] xs)" and "x \<notin> set objectPrototypeKeys"
    by auto
  then show ?case
    by (simp add: add_vote_ok)
qed

lemma getVotes_fold:
  "getVotes ns = foldl add_vote [] (map (\<lambda>n. label_key (label n)) ns)"
  by (simp add: getVotes_def foldl_map)

lemma max_votes_first_maximum:
  assumes "\<forall>p\<in>set vs. snd p = Count (c (fst p))"
  shows "(\<forall>l\<in>fst ` set vs. c l \<le> maxVotes (max_votes vs best))
       \<and> maxVotes best \<le> maxVotes (max_votes vs best)
       \<and> (max_votes vs best = best
          \<or> (\<exists>ys w zs. map fst vs = ys @ w # zs
                \<and> max_votes vs best = \<lparr> predictedLabel = Some w, maxVotes = c w \<rparr>
                \<and> maxVotes best < c w \<and> (\<forall>l\<in>set ys. c l < c w)))"
  using assms
proof (induction vs arbitrary: best)
  case Nil
  then show ?case by simp
next
  case (Cons p vs)
  obtain l where p: "p = (l, Count (c l))"
    using Cons.prems by (cases p) auto
  from Cons.prems have rest: "\<forall>p\<in>set vs. snd p = Count (c (fst p))" by simp
  show ?case
  proof (cases "c l > maxVotes best")
    case True
    define best' where "best' = \<lparr> predictedLabel = Some l, maxVotes = c l \<rparr>"
    have run: "max_votes (p # vs) best = max_votes vs best'"
      using True by (simp add: p best'_def)
    note ih = Cons.IH [OF rest, of best']
    from ih have le: "\<forall>l\<in>fst ` set vs. c l \<le> maxVotes (max_votes vs best')"
      and ge: "c l \<le> maxVotes (max_votes vs best')"
      by (simp_all add: best'_def)
    from ih consider (same) "max_votes vs best' = best'"
      | (later) ys w zs where "map fst vs = ys @ w # zs"
          "max_votes vs best' = \<lparr> predictedLabel = Some w, maxVotes = c w \<rparr>"
          "c l < c w" "\<forall>l\<in>set ys. c l < c w"
      by (auto simp add: best'_def)
    then have "\<exists>ys w zs. map fst (p # vs) = ys @ w # zs
                \<and> max_votes vs best' = \<lparr> predictedLabel = Some w, maxVotes = c w \<rparr>
                \<and> maxVotes best < c w \<and> (\<forall>l\<in>set ys. c l < c w)"
    proof cases
      case same
      have "map fst (p # vs) = [] @ l # map fst vs" by (simp add: p)
      with same True show ?thesis
        unfolding best'_def by (intro exI [of _ "[]"] exI [of _ l] exI [of _ "map fst vs"]) simp
    next
      case later
      have "map fst (p # vs) = (l # ys) @ w # zs" by (simp add: p later(1))
      with later True show ?thesis
        by (intro exI [of _ "l # ys"] exI [of _ w] exI [of _ zs]) auto
    qed
    with le ge True show ?thesis
      unfolding run by (auto simp add: p)
  next
    case False
    have run: "max_votes (p # vs) best = max_votes vs best"
      using False by (simp add: p)
    note ih = Cons.IH [OF rest, of best]
    from ih have le: "\<forall>l\<in>fst ` set vs. c l \<le> maxVotes (max_votes vs best)"
      and ge: "maxVotes best \<le> maxVotes (max_votes vs best)"
      by simp_all
    from ih consider (same) "max_votes vs best = best"
      | (later) ys w zs where "map fst vs = ys @ w # zs"
          "max_votes vs best = \<lparr> predictedLabel = Some w, maxVotes = c w \<rparr>"
          "maxVotes best < c w" "\<forall>l\<in>set ys. c l < c w"
      by auto
    then have "max_votes vs best = best
          \<or> (\<exists>ys w zs. map fst (p # vs) = ys @ w # zs
                \<and> max_votes vs best = \<lparr> predictedLabel = Some w, maxVotes = c w \<rparr>
                \<and> maxVotes best < c w \<and> (\<forall>l\<in>set ys. c l < c w))"
    proof cases
      case same
      then show ?thesis by simp
    next
      case later
      have "map fst (p # vs) = (l # ys) @ w # zs" by (simp add: p later(1))
      with later False have "\<exists>ys w zs. map fst (p # vs) = ys @ w # zs
                \<and> max_votes vs best = \<lparr> predictedLabel = Some w, maxVotes = c w \<rparr>
                \<and> maxVotes best < c w \<and> (\<forall>l\<in>set ys. c l < c w)"
        by (intro exI [of _ "l # ys"] exI [of _ w] exI [of _ zs]) auto
      then show ?thesis by simp
    qed
    with le ge False show ?thesis
      unfolding run by (auto simp add: p)
  qed
qed

lemma obj_set_plain_keys:
  "arrayIndex x = None \<Longrightarrow>
   map fst (obj_set vs x v) = (if x \<in> fst ` set vs then map fst vs else map fst vs @ [x])"
proof (induction vs)
  case Nil
  then show ?case by simp
next
  case (Cons p vs)
  obtain ky u where p: "p = (ky, u)" by (cases p)
  from Cons show ?case
    unfolding p obj_set_Cons by (auto simp add: placed_before_def)
qed

lemma first_seen_snoc:
  "first_seen (xs @ [x]) = (if x \<in> set xs then first_seen xs else first_seen xs @ [x])"
  by (simp add: first_seen_def)

lemma plain_tally_keys:
  assumes "set ls \<inter> set objectPrototypeKeys = {}" and "\<forall>l\<in>set ls. arrayIndex l = None"
  shows "map fst (foldl add_vote [] ls) = first_seen ls"
  using assms
proof (induction ls rule: rev_induct)
  case Nil
  then show ?case by (simp add: first_seen_def)
next
  case (snoc x xs)
  then have ih: "map fst (foldl add_vote [] xs) = first_seen xs"
    and x: "x \<notin> set objectPrototypeKeys" "arrayIndex x = None"
    and xs: "set xs \<inter> set objectPrototypeKeys = {}"
    by auto
  have np: "x \<noteq> ''__proto__''"
    using x(1) by (auto simp add: objectPrototypeKeys_def)
  from tally_ok_fold [OF xs] have keys: "fst ` set (foldl add_vote [] xs) = set xs"
    by (simp add: tally_ok_def)
  obtain new where "add_vote (foldl add_vote [] xs) x = obj_set (foldl add_vote [] xs) x new"
    using np by (simp add: add_vote_def Let_def)
  then show ?case
    using x(2) ih keys by (simp add: obj_set_plain_keys first_seen_snoc)
qed

lemma max_votes_counts:
  "max_votes (map (\<lambda>l. (l, Count (c l))) ks) best = highest_count (map (\<lambda>l. (l, c l)) ks) best"
  by (induction ks arbitrary: best) simp_all

lemma tally_from_keys:
  assumes "tally_ok ls vs"
  shows "vs = map (\<lambda>l. (l, Count (count_list ls l))) (map fst vs)"
proof -
  from assms have srt: "sorted_wrt (visited_before ls) (map fst vs)"
    and keys: "fst ` set vs = set ls"
    and vals: "\<And>l. l \<in> set ls \<Longrightarrow> map_of vs l = Some (Count (count_list ls l))"
    by (simp_all add: tally_ok_def list_all_iff)
  have "distinct (map fst vs)"
    using srt visited_before_irrefl by (simp add: distinct_conv_nth sorted_wrt_iff_nth_less)
       (metis linorder_neqE_nat)
  have "p = (fst p, Count (count_list ls (fst p)))" if "p \<in> set vs" for p
  proof -
    from that keys have "fst p \<in> set ls" by auto
    from vals [OF this] have "map_of vs (fst p) = Some (Count (count_list ls (fst p)))" .
    moreover have "map_of vs (fst p) = Some (snd p)"
      using map_of_is_SomeI [OF \<open>distinct (map fst vs)\<close>, of "fst p" "snd p"] that by simp
    ultimately show ?thesis by (cases p) simp
  qed
  then show ?thesis
    by (simp add: map_idI [symmetric] o_def cong: map_cong)
qed

lemma findNearestNeighbors_nonempty:
  assumes "trainingFeatures st \<noteq> []" and "0 < k st"
  shows "findNearestNeighbors st q \<noteq> []"
proof -
  have "length (nearestPoints q (trainingFeatures st) (k st) (distanceMetric st))
          = min (length (trainingFeatures st)) (nat (k st))"
    using assms(2) by (simp add: nearestPoints_def slice0_def length_Array_sort)
  with assms have "0 < length (nearestPoints q (trainingFeatures st) (k st) (distanceMetric st))"
    by simp
  then show ?thesis
    by (simp add: findNearestNeighbors_def)
qed

text \<open>
  C5, as amended. On a classifier that holds at least one point, with the regression flag
  off, \<open>k > 0\<close> and labels none of which is the name of a property of
  \<open>Object.prototype\<close>, \<open>predict\<close> returns a label with the highest count among the labels
  of the \<open>k\<close> nearest neighbours, together with that count. Among labels that tie on the
  count it returns the one the tally's iteration visits first: labels that are array
  indices (canonical decimal strings) in ascending numeric order, before every other
  label, and the other labels in the order they were first encountered. When no label is
  an array index, this is the vote as the specification words it.
\<close>

theorem predict_majority_vote:
  fixes st :: "string KNNClassifier" and feature q :: point
  defines "ls \<equiv> map (\<lambda>n. label_key (label n)) (findNearestNeighbors st q)"
  assumes "\<not> regression st" and "query_point st feature = Inr q"
    and "trainingFeatures st \<noteq> []" and "0 < k st"
    and "set ls \<inter> set objectPrototypeKeys = {}"
  shows "(\<exists>w. KNN_predict st feature = Inr \<lparr> predictedLabel = Some w, maxVotes = count_list ls w \<rparr>
            \<and> w \<in> set ls
            \<and> (\<forall>l\<in>set ls. count_list ls l \<le> count_list ls w)
            \<and> (\<forall>l\<in>set ls. l \<noteq> w \<and> count_list ls l = count_list ls w \<longrightarrow> visited_before ls w l))
       \<and> ((\<forall>l\<in>set ls. arrayIndex l = None) \<longrightarrow> KNN_predict st feature = Inr (vote_as_specified ls))"
proof
  define vs where "vs = getVotes (findNearestNeighbors st q)"
  define r where "r = max_votes vs \<lparr> predictedLabel = None, maxVotes = 0 \<rparr>"
  have run: "KNN_predict st feature = Inr r"
    using assms(3) by (simp add: KNN_predict_def r_def vs_def)
  have fold: "vs = foldl add_vote [] ls"
    by (simp add: vs_def ls_def getVotes_fold)
  from tally_ok_fold [OF assms(6)] have ok: "tally_ok ls vs"
    by (simp add: fold)
  then have srt: "sorted_wrt (visited_before ls) (map fst vs)"
    and keys: "fst ` set vs = set ls"
    by (simp_all add: tally_ok_def)
  have ne: "ls \<noteq> []"
    using findNearestNeighbors_nonempty [OF assms(4,5)] by (simp add: ls_def)
  from tally_from_keys [OF ok] have "\<forall>p\<in>set vs. snd p = Count (count_list ls (fst p))"
    by (metis (no_types, lifting) imageE list.set_map snd_conv fst_conv)
  from max_votes_first_maximum [OF this, of "\<lparr> predictedLabel = None, maxVotes = 0 \<rparr>"]
  have top: "\<forall>l\<in>set ls. count_list ls l \<le> maxVotes r"
    and alt: "r = \<lparr> predictedLabel = None, maxVotes = 0 \<rparr>
          \<or> (\<exists>ys w zs. map fst vs = ys @ w # zs
                \<and> r = \<lparr> predictedLabel = Some w, maxVotes = count_list ls w \<rparr>
                \<and> (\<forall>l\<in>set ys. count_list ls l < count_list ls w))"
    unfolding r_def [symmetric] keys by auto
  from ne obtain l0 where l0: "l0 \<in> set ls" by (cases ls) auto
  then have "0 < count_list ls l0"
    using count_list_0_iff [of ls l0] by auto
  with top l0 have "0 < maxVotes r" by force
  with alt obtain ys w zs where split: "map fst vs = ys @ w # zs"
    and r: "r = \<lparr> predictedLabel = Some w, maxVotes = count_list ls w \<rparr>"
    and earlier: "\<forall>l\<in>set ys. count_list ls l < count_list ls w"
    by auto
  have w: "w \<in> set ls"
    using split keys by (metis in_set_conv_decomp list.set_map)
  have tie: "visited_before ls w l" if "l \<in> set ls" "l \<noteq> w" "count_list ls l = count_list ls w" for l
  proof -
    from that(1) keys have "l \<in> set (map fst vs)" by simp
    with split that(2) have "l \<in> set ys \<or> l \<in> set zs" by auto
    with earlier that(3) have "l \<in> set zs" by auto
    with srt split show ?thesis
      by (simp add: sorted_wrt_append)
  qed
  from run r w top tie
  show "\<exists>w. KNN_predict st feature = Inr \<lparr> predictedLabel = Some w, maxVotes = count_list ls w \<rparr>
            \<and> w \<in> set ls
            \<and> (\<forall>l\<in>set ls. count_list ls l \<le> count_list ls w)
            \<and> (\<forall>l\<in>set ls. l \<noteq> w \<and> count_list ls l = count_list ls w \<longrightarrow> visited_before ls w l)"
    by (intro exI [of _ w]) simp
  show "(\<forall>l\<in>set ls. arrayIndex l = None) \<longrightarrow> KNN_predict st feature = Inr (vote_as_specified ls)"
  proof
    assume plain: "\<forall>l\<in>set ls. arrayIndex l = None"
    from plain_tally_keys [OF assms(6) plain] have "map fst vs = first_seen ls"
      by (simp add: fold)
    with tally_from_keys [OF ok] have "vs = map (\<lambda>l. (l, Count (count_list ls l))) (first_seen ls)"
      by simp
    then have "r = vote_as_specified ls"
      by (simp add: r_def vote_as_specified_def max_votes_counts)
    with run show "KNN_predict st feature = Inr (vote_as_specified ls)" by simp
  qed
qed

lemma tie_distances:
  "euclideanDistance [Num 0] [Num 0] = Num 0"
  "euclideanDistance [Num 0] [Num 1] = Num 1"
  by (simp_all add: euclideanDistance_def pow2_def num_at_def minus_jsnum_def zero_jsnum_def upt_rec)

lemma tie_neighbours:
  "findNearestNeighbors tie_knn [Num 0] =
     [\<lparr> index = 0, point = [Num 0], distance = Num 0, label = Some ''2'' \<rparr>,
      \<lparr> index = 1, point = [Num 1], distance = Num 1, label = Some ''1'' \<rparr>]"
  by (simp add: findNearestNeighbors_def nearestPoints_def tie_knn_def tie_distances Array_sort_def
        slice0_def minus_jsnum_def zero_jsnum_def upt_rec)

lemma index_1_2: "arrayIndex ''1'' = Some 1" "arrayIndex ''2'' = Some 2"
  by (simp_all add: arrayIndex_def digit_def upt_rec)

lemma tie_votes:
  "getVotes (findNearestNeighbors tie_knn [Num 0]) = [(''1'', Count 1), (''2'', Count 1)]"
  by (simp add: tie_neighbours getVotes_def add_vote_def label_key_def objectPrototypeKeys_def
        obj_set.simps index_1_2)

text \<open>
  C5 as stated fails on labels that are array indices. Two stored points labelled 2 and
  1, \<open>k = 2\<close>, query at the first point: the nearest neighbour's label 2 is encountered
  first and ties with 1 on one vote, yet \<open>predict\<close> returns 1, because the tally is
  visited in ascending numeric order of such keys.
\<close>

theorem first_encountered_counterexample:
  "KNN_train (new_KNNClassifier 2) [[Num 0], [Num 1]] [''2'', ''1''] = Inr tie_knn
   \<and> map (\<lambda>n. label_key (label n)) (findNearestNeighbors tie_knn [Num 0]) = [''2'', ''1'']
   \<and> vote_as_specified [''2'', ''1''] = \<lparr> predictedLabel = Some ''2'', maxVotes = 1 \<rparr>
   \<and> KNN_predict tie_knn [Num 0] = Inr \<lparr> predictedLabel = Some ''1'', maxVotes = 1 \<rparr>
   \<and> KNN_predict tie_knn [Num 0]
       \<noteq> Inr (vote_as_specified (map (\<lambda>n. label_key (label n)) (findNearestNeighbors tie_knn [Num 0])))"
proof -
  have tr: "KNN_train (new_KNNClassifier 2) [[Num 0], [Num 1]] [''2'', ''1''] = Inr tie_knn"
    by (simp add: KNN_train_def new_KNNClassifier_def tie_knn_def upt_rec)
  have ls: "map (\<lambda>n. label_key (label n)) (findNearestNeighbors tie_knn [Num 0]) = [''2'', ''1'']"
    by (simp add: tie_neighbours label_key_def)
  have sp: "vote_as_specified [''2'', ''1''] = \<lparr> predictedLabel = Some ''2'', maxVotes = 1 \<rparr>"
    by (simp add: vote_as_specified_def first_seen_def)
  have pr: "KNN_predict tie_knn [Num 0] = Inr \<lparr> predictedLabel = Some ''1'', maxVotes = 1 \<rparr>"
    by (simp add: KNN_predict_def query_point_def tie_votes) (simp add: tie_knn_def)
  from tr ls sp pr show ?thesis by simp
qed

lemma iris_neighbours:
  "map (\<lambda>n. label_key (label n)) (findNearestNeighbors iris_knn [Num 5.0, Num 3.4, Num 1.4, Num 0.2]) = [''A'']"
  by (simp add: findNearestNeighbors_def nearestPoints_def iris_knn_def euclideanDistance_def pow2_def
        num_at_def Array_sort_def slice0_def minus_jsnum_def zero_jsnum_def upt_rec label_key_def)

theorem predict_majority_vote_witness:
  "\<not> regression iris_knn
   \<and> query_point iris_knn [Num 5.0, Num 3.4, Num 1.4, Num 0.2] = Inr [Num 5.0, Num 3.4, Num 1.4, Num 0.2]
   \<and> trainingFeatures iris_knn \<noteq> [] \<and> 0 < k iris_knn
   \<and> map (\<lambda>n. label_key (label n)) (findNearestNeighbors iris_knn [Num 5.0, Num 3.4, Num 1.4, Num 0.2]) = [''A'']
   \<and> set [''A''] \<inter> set objectPrototypeKeys = {}
   \<and> list_all (\<lambda>l. arrayIndex l = None) [''A'']
   \<and> KNN_predict iris_knn [Num 5.0, Num 3.4, Num 1.4, Num 0.2]
       = Inr \<lparr> predictedLabel = Some ''A'', maxVotes = 1 \<rparr>
   \<and> vote_as_specified [''A''] = \<lparr> predictedLabel = Some ''A'', maxVotes = 1 \<rparr>"
proof -
  have q: "query_point iris_knn [Num 5.0, Num 3.4, Num 1.4, Num 0.2] = Inr [Num 5.0, Num 3.4, Num 1.4, Num 0.2]"
    by (simp add: query_point_def iris_knn_def)
  have t: "trainingFeatures iris_knn \<noteq> []" and kk: "0 < k iris_knn"
    and cl: "\<not> regression iris_knn"
    by (simp_all add: iris_knn_def)
  have plain: "set [''A''] \<inter> set objectPrototypeKeys = {}"
    by (simp add: objectPrototypeKeys_def)
  have p: "set (map (\<lambda>n. label_key (label n))
              (findNearestNeighbors iris_knn [Num 5.0, Num 3.4, Num 1.4, Num 0.2]))
            \<inter> set objectPrototypeKeys = {}"
    unfolding iris_neighbours by (rule plain)
  have ni: "list_all (\<lambda>l. arrayIndex l = None) [''A'']"
    by (simp add: arrayIndex_def digit_def upt_rec)
  from predict_majority_vote [OF cl q t kk p, THEN conjunct1, unfolded iris_neighbours]
  have pr: "KNN_predict iris_knn [Num 5.0, Num 3.4, Num 1.4, Num 0.2]
       = Inr \<lparr> predictedLabel = Some ''A'', maxVotes = 1 \<rparr>"
    by auto
  from predict_majority_vote [OF cl q t kk p, THEN conjunct2, unfolded iris_neighbours] ni pr
  have sp: "vote_as_specified [''A''] = \<lparr> predictedLabel = Some ''A'', maxVotes = 1 \<rparr>"
    by simp
  from cl q t kk iris_neighbours plain ni pr sp show ?thesis by simp
qed

end
